theory Spec2Isabelle
  imports Main "HOL-Library.Word" "HOL-Library.Log_Nat"
begin

unbundle bit_operations_syntax

section \<open>Data model of tunnel/intra/udp.go\<close>

text \<open>
  Identities of the objects the handler only refers to: the flow handle the stack
  supplies (\<open>core.UDPConn\<close>), the real socket (\<open>*net.UDPConn\<close>), a tracker
  pointer (\<open>*tracker\<close>) and the DNS transport (a non-nil interface value).
  Times and durations are nanoseconds, as \<open>time.Duration\<close> is.
\<close>

type_synonym byte = "8 word"
type_synonym UDPConn = nat
type_synonym sock = nat
type_synonym ptr = nat
type_synonym Time = int
type_synonym DNSTransport = nat

record UDPAddr =
  IP :: "byte list"
  Port :: int
  Zone :: string

record UDPSocketSummary =
  UploadBytes :: "64 word"
  DownloadBytes :: "64 word"
  Duration :: "32 word"

text \<open>The struct \<open>tracker\<close>; the field \<open>queryid\<close> is \<open>queryid_f\<close> here, since
  the source also has a function of that name.\<close>

record tracker =
  conn :: sock
  start :: Time
  upload :: "64 word"
  download :: "64 word"
  complex :: bool
  queryid_f :: "16 word"

definition makeTracker :: "sock \<Rightarrow> Time \<Rightarrow> tracker" where
  "makeTracker c now =
     \<lparr>conn = c, start = now, upload = 0, download = 0, complex = False, queryid_f = 0\<rparr>"

datatype error =
    ListenError nat
  | ResolveError string
  | ConnNotExists UDPConn UDPAddr
  | WriteFailed

text \<open>Every call the handler makes on a collaborator, in program order.\<close>

datatype event =
    ListenUDP string UDPAddr "sock option"
  | SetDeadline sock Time
  | ReadFrom sock
  | WriteTo sock "byte list" UDPAddr
  | SockClose sock
  | WriteFrom UDPConn "byte list" UDPAddr
  | ConnClose UDPConn
  | OnUDPSocketClosed UDPSocketSummary
  | Query DNSTransport "byte list"
  | Go_fetchUDPInput UDPConn ptr
  | Go_doDoh UDPConn "byte list"

datatype logline =
    Errorf string
  | Warnf string
  | Infof string "UDPAddr option"

text \<open>
  The struct \<open>udpHandler\<close>, without its mutex. Each operation below is defined
  as it runs when nothing interrupts it. \<open>ReceiveTo\<close> releases the lock between
  its lookup and the rest, so it is also given in these two parts, and the life of a
  flow (further down) lets the read task run between them.
\<close>

record udpHandler =
  timeout :: int
  udpConns :: "UDPConn \<rightharpoonup> ptr"
  fakedns :: UDPAddr
  truedns :: UDPAddr
  dns :: "DNSTransport option"
  listener :: nat

text \<open>
  The handler together with the store it runs in: the trackers by address (the table
  and the read task share a tracker through its pointer), the allocation counters,
  which real sockets have been closed, the calls made so far and the log.
\<close>

record world = udpHandler +
  heap :: "ptr \<Rightarrow> tracker"
  nextp :: ptr
  nexts :: sock
  closed :: "sock \<Rightarrow> bool"
  trace :: "event list"
  logs :: "logline list"

definition NewUDPHandler ::
  "UDPAddr \<Rightarrow> UDPAddr \<Rightarrow> DNSTransport option \<Rightarrow> int \<Rightarrow> nat \<Rightarrow> udpHandler" where
  "NewUDPHandler fake true d tmo l =
     \<lparr>timeout = tmo, udpConns = Map.empty, fakedns = fake, truedns = true,
      dns = d, listener = l\<rparr>"

text \<open>A handler placed in an empty store.\<close>

definition boot :: "udpHandler \<Rightarrow> world" where
  "boot h =
     \<lparr>timeout = timeout h, udpConns = udpConns h, fakedns = fakedns h,
      truedns = truedns h, dns = dns h, listener = listener h,
      heap = (\<lambda>_. makeTracker 0 0), nextp = 0, nexts = 0, closed = (\<lambda>_. False),
      trace = [], logs = []\<rparr>"

section \<open>Address comparison and the query id\<close>

definition v4InV6Prefix :: "byte list" where
  "v4InV6Prefix = [0, 0, 0, 0, 0, 0, 0, 0, 0, 0, 0xff, 0xff]"

text \<open>\<open>net.IP.Equal\<close>: an IPv4 address equals its IPv4-in-IPv6 form.\<close>

definition IP_Equal :: "byte list \<Rightarrow> byte list \<Rightarrow> bool" where
  "IP_Equal ip x =
     (if length ip = length x then ip = x
      else if length ip = 4 \<and> length x = 16
        then take 12 x = v4InV6Prefix \<and> ip = drop 12 x
      else if length ip = 16 \<and> length x = 4
        then take 12 ip = v4InV6Prefix \<and> drop 12 ip = x
      else False)"

text \<open>The test \<open>a.IP.Equal(b.IP) && a.Port == b.Port\<close> of both classifications.\<close>

definition same_addr :: "UDPAddr \<Rightarrow> UDPAddr \<Rightarrow> bool" where
  "same_addr a b = (IP_Equal (IP a) (IP b) \<and> Port a = Port b)"

text \<open>\<open>queryid\<close> returns an \<open>int32\<close>: \<open>-1\<close> for a short packet, else the first two
  bytes, big endian.\<close>

definition queryid :: "byte list \<Rightarrow> 32 word" where
  "queryid data =
     (if length data < 2 then - 1
      else 0xFFFF AND (push_bit 8 (ucast (data ! 0)) OR ucast (data ! 1)))"

section \<open>Connect, doDoh, ReceiveTo\<close>

text \<open>
  \<open>Connect\<close>. The environment decides whether \<open>net.ListenUDP\<close> fails (\<open>Some\<close> error)
  and what \<open>time.Now()\<close> reads. The target only reaches the log line.
\<close>

definition Connect ::
  "world \<Rightarrow> UDPConn \<Rightarrow> UDPAddr option \<Rightarrow> error option \<Rightarrow> Time \<Rightarrow> error option \<times> world" where
  "Connect w c target listen_err now =
     (let bindAddr = \<lparr>IP = [], Port = 0, Zone = ''''\<rparr> in
      case listen_err of
        Some err \<Rightarrow>
          (Some err,
           w\<lparr>trace := trace w @ [ListenUDP ''udp'' bindAddr None],
             logs := logs w @ [Errorf ''failed to bind udp address'']\<rparr>)
      | None \<Rightarrow>
          (let pc = nexts w;
               t = makeTracker pc now;
               p = nextp w
           in (None,
               w\<lparr>udpConns := (udpConns w)(c \<mapsto> p),
                 heap := (heap w)(p := t),
                 nextp := Suc p,
                 nexts := Suc pc,
                 closed := (closed w)(pc := False),
                 trace := trace w @ [ListenUDP ''udp'' bindAddr (Some pc), Go_fetchUDPInput c p],
                 logs := logs w @ [Infof ''new proxy connection for target: %s:%s'' target]\<rparr>)))"

text \<open>
  \<open>doDoh\<close>, the task \<open>ReceiveTo\<close> starts. The environment supplies the transport's
  answer (\<open>None\<close> for an error). \<open>None\<close> as result is the nil dereference of
  \<open>h.dns\<close>.
\<close>

definition doDoh :: "world \<Rightarrow> UDPConn \<Rightarrow> byte list \<Rightarrow> byte list option \<Rightarrow> world option" where
  "doDoh w c data answer =
     (case dns w of
        None \<Rightarrow> None
      | Some d \<Rightarrow>
          (let w1 = w\<lparr>trace := trace w @ [Query d data]\<rparr> in
           case answer of
             None \<Rightarrow> Some w1
           | Some resp \<Rightarrow> Some (w1\<lparr>trace := trace w1 @ [WriteFrom c resp (fakedns w)]\<rparr>)))"

text \<open>
  The classification of an outgoing datagram in \<open>ReceiveTo\<close> (lines 170 to 189):
  the tracker after it, the address to write to, and whether a DoH task is started.
\<close>

definition classify_out ::
  "world \<Rightarrow> tracker \<Rightarrow> byte list \<Rightarrow> UDPAddr \<Rightarrow> tracker \<times> UDPAddr \<times> bool" where
  "classify_out w t data addr =
     (if same_addr addr (fakedns w) then
        (case dns w of
           Some d \<Rightarrow> (t, addr, True)
         | None \<Rightarrow>
             (let id = queryid data in
              (if sint id < 0 then t\<lparr>complex := True\<rparr>
               else if upload t = 0 then t\<lparr>queryid_f := ucast id\<rparr>
               else if queryid_f t \<noteq> ucast id then t\<lparr>complex := True\<rparr>
               else t,
               truedns w, False)))
      else (t\<lparr>complex := True\<rparr>, addr, False))"

text \<open>
  \<open>ReceiveTo\<close> in its two parts. The lookup (lines 162 to 168) runs under the
  handler's lock. The rest (lines 170 to 196) runs after the lock is released, on the
  tracker the lookup returned: other steps can run between the two. In the second
  part the environment decides whether the write to the real socket succeeds
  (\<open>wr_ok\<close>); a write on a closed socket fails.
\<close>

definition ReceiveTo_lookup :: "world \<Rightarrow> UDPConn \<Rightarrow> UDPAddr \<Rightarrow> error + ptr" where
  "ReceiveTo_lookup w c addr =
     (case udpConns w c of
        None \<Rightarrow> Inl (ConnNotExists c addr)
      | Some p \<Rightarrow> Inr p)"

definition ReceiveTo_forward ::
  "world \<Rightarrow> UDPConn \<Rightarrow> ptr \<Rightarrow> byte list \<Rightarrow> UDPAddr \<Rightarrow> bool \<Rightarrow> error option \<times> world" where
  "ReceiveTo_forward w c p data addr wr_ok =
     (case classify_out w (heap w p) data addr of
        (t1, addr1, doh) \<Rightarrow>
          (let w1 = (if doh then w\<lparr>trace := trace w @ [Go_doDoh c data]\<rparr> else w);
               t2 = t1\<lparr>upload := upload t1 + of_nat (length data)\<rparr>;
               w2 = w1\<lparr>heap := (heap w1)(p := t2),
                       trace := trace w1 @ [WriteTo (conn t2) data addr1]\<rparr>
           in if wr_ok \<and> \<not> closed w (conn t2) then (None, w2)
              else (Some WriteFailed,
                    w2\<lparr>logs := logs w2 @ [Warnf ''failed to forward UDP payload'']\<rparr>)))"

text \<open>A call of \<open>ReceiveTo\<close> that nothing interrupts.\<close>

definition ReceiveTo ::
  "world \<Rightarrow> UDPConn \<Rightarrow> byte list \<Rightarrow> UDPAddr \<Rightarrow> bool \<Rightarrow> error option \<times> world" where
  "ReceiveTo w c data addr wr_ok =
     (case ReceiveTo_lookup w c addr of
        Inl err \<Rightarrow> (Some err, w)
      | Inr p \<Rightarrow> ReceiveTo_forward w c p data addr wr_ok)"

section \<open>The duration of a flow\<close>

text \<open>
  \<open>int32(time.Since(t.start).Seconds())\<close>, as the code computes it.
  \<^item> \<open>time.Since\<close> is a \<open>Duration\<close>, an \<open>int64\<close> of nanoseconds; the subtraction
    of the two clock readings saturates (\<open>sat64\<close>).
  \<^item> \<open>Seconds\<close> is \<open>float64(d / Second) + float64(d % Second) / 1e9\<close>, with
    the integer division and remainder of Go (towards zero) and each conversion,
    the division and the addition rounded to \<open>float64\<close>.
  \<^item> \<open>round64\<close> rounds a rational to the nearest \<open>float64\<close>, ties to even: 53
    significant bits at the exponent of the value (the values here are far inside
    the normal range, so there is neither overflow nor a subnormal).
  \<^item> The conversion to \<open>int32\<close> drops the fraction; for a value outside
    \<open>int32\<close> Go leaves the result to the implementation, and it is \<open>-2^31\<close>
    here, as on amd64.
\<close>

definition Nanosecond :: int where "Nanosecond = 1"
definition Microsecond :: int where "Microsecond = 1000 * Nanosecond"
definition Millisecond :: int where "Millisecond = 1000 * Microsecond"
definition Second :: int where "Second = 1000 * Millisecond"
definition Minute :: int where "Minute = 60 * Second"
definition Hour :: int where "Hour = 60 * Minute"

definition sat64 :: "int \<Rightarrow> int" where
  "sat64 d = max (- (2 ^ 63)) (min (2 ^ 63 - 1) d)"

definition tdiv :: "int \<Rightarrow> int \<Rightarrow> int" where
  "tdiv a b = sgn a * (\<bar>a\<bar> div b)"

definition trem :: "int \<Rightarrow> int \<Rightarrow> int" where
  "trem a b = a - tdiv a b * b"

definition rne :: "rat \<Rightarrow> int" where
  "rne y =
     (let f = \<lfloor>y\<rfloor>; r = y - of_int f
      in if r < 1 / 2 then f else if 1 / 2 < r then f + 1 else if even f then f else f + 1)"

definition pow2 :: "int \<Rightarrow> rat" where
  "pow2 e = (if 0 \<le> e then 2 ^ nat e else 1 / 2 ^ nat (- e))"

text \<open>The exponent of a positive rational: \<open>2^(ilog2 x) \<le> x < 2^(ilog2 x + 1)\<close>.\<close>

definition ilog2 :: "rat \<Rightarrow> int" where
  "ilog2 x = (if 1 \<le> x then bitlen \<lfloor>x\<rfloor> - 1 else - bitlen (\<lceil>1 / x\<rceil> - 1))"

definition round64 :: "rat \<Rightarrow> rat" where
  "round64 x =
     (if x = 0 then 0
      else (let e = ilog2 \<bar>x\<bar> - 52
            in sgn x * of_int (rne (\<bar>x\<bar> / pow2 e)) * pow2 e))"

definition Seconds :: "int \<Rightarrow> rat" where
  "Seconds d =
     (let sec = tdiv d Second;
          nsec = trem d Second
      in round64 (round64 (of_int sec) + round64 (round64 (of_int nsec) / round64 1000000000)))"

definition trunc0 :: "rat \<Rightarrow> int" where
  "trunc0 y = (if 0 \<le> y then \<lfloor>y\<rfloor> else - \<lfloor>- y\<rfloor>)"

definition int32_of :: "int \<Rightarrow> 32 word" where
  "int32_of t = (if - (2 ^ 31) \<le> t \<and> t < 2 ^ 31 then word_of_int t else - (2 ^ 31))"

definition seconds32 :: "int \<Rightarrow> 32 word" where
  "seconds32 d = int32_of (trunc0 (Seconds (sat64 d)))"

section \<open>Close\<close>

text \<open>\<open>Close\<close>; \<open>now\<close> is the clock \<open>time.Since\<close> reads.\<close>

definition Close :: "world \<Rightarrow> UDPConn \<Rightarrow> Time \<Rightarrow> world" where
  "Close w c now =
     (let w1 = w\<lparr>trace := trace w @ [ConnClose c]\<rparr> in
      case udpConns w1 c of
        None \<Rightarrow> w1
      | Some p \<Rightarrow>
          (let t = heap w1 p;
               duration = seconds32 (now - start t)
           in w1\<lparr>udpConns := (udpConns w1)(c := None),
                 closed := (closed w1)(conn t := True),
                 trace := trace w1 @
                   [SockClose (conn t),
                    OnUDPSocketClosed
                      \<lparr>UploadBytes = upload t, DownloadBytes = download t,
                       Duration = duration\<rparr>]\<rparr>))"

section \<open>The read task\<close>

text \<open>
  What \<open>ReadFrom\<close> returns: an error, or \<open>n\<close> bytes from a sender, with the
  buffer as it is after the read.
\<close>

datatype recv = RecvErr | RecvOk nat UDPAddr "byte list"

datatype loop = Continue | Exit

text \<open>
  The classification of an incoming datagram (lines 105 to 122): the tracker after it
  and the source address the datagram is forwarded with.
\<close>

definition classify_in ::
  "world \<Rightarrow> tracker \<Rightarrow> nat \<Rightarrow> UDPAddr \<Rightarrow> byte list \<Rightarrow> tracker \<times> UDPAddr" where
  "classify_in w t n addr buf =
     (if same_addr addr (truedns w) then
        (if n < 2 then t\<lparr>complex := True\<rparr>
         else (let responseid = queryid buf in
               if queryid_f t \<noteq> ucast responseid then t\<lparr>complex := True\<rparr> else t),
         fakedns w)
      else (t\<lparr>complex := True\<rparr>, addr))"

text \<open>
  One iteration of the loop of \<open>fetchUDPInput\<close>. The environment supplies the
  clock, what \<open>ReadFrom\<close> returns (an error on a closed socket) and whether the write
  towards the virtual interface succeeds.
\<close>

definition fetch_iter ::
  "world \<Rightarrow> UDPConn \<Rightarrow> ptr \<Rightarrow> Time \<Rightarrow> recv \<Rightarrow> bool \<Rightarrow> world \<times> loop" where
  "fetch_iter w c p now r wf_ok =
     (let s = conn (heap w p);
          w1 = w\<lparr>trace := trace w @ [SetDeadline s (now + timeout w), ReadFrom s]\<rparr>
      in case (if closed w s then RecvErr else r) of
           RecvErr \<Rightarrow> (w1, Exit)
         | RecvOk n addr buf \<Rightarrow>
             (case classify_in w1 (heap w1 p) n addr buf of
                (t1, udpaddr) \<Rightarrow>
                  (let t2 = t1\<lparr>download := download t1 + of_nat n\<rparr>;
                       w2 = w1\<lparr>heap := (heap w1)(p := t2),
                               trace := trace w1 @ [WriteFrom c (take n buf) udpaddr]\<rparr>
                   in if \<not> wf_ok
                      then (w2\<lparr>logs := logs w2 @ [Warnf ''failed to write UDP data to TUN'']\<rparr>,
                            Exit)
                      else if \<not> complex t2 then (w2, Exit)
                      else (w2, Continue))))"

text \<open>
  The loop over the inputs the environment has supplied so far. With no input left
  the task is still blocked in \<open>ReadFrom\<close> (\<open>Continue\<close>).
\<close>

fun fetch_loop ::
  "world \<Rightarrow> UDPConn \<Rightarrow> ptr \<Rightarrow> (Time \<times> recv \<times> bool) list \<Rightarrow> world \<times> loop" where
  "fetch_loop w c p [] = (w, Continue)"
| "fetch_loop w c p ((now, r, wf_ok) # ins) =
     (case fetch_iter w c p now r wf_ok of
        (w', Continue) \<Rightarrow> fetch_loop w' c p ins
      | (w', Exit) \<Rightarrow> (w', Exit))"

text \<open>\<open>fetchUDPInput\<close>: the loop, and the deferred \<open>h.Close(conn)\<close> when it returns.\<close>

definition fetchUDPInput ::
  "world \<Rightarrow> UDPConn \<Rightarrow> ptr \<Rightarrow> (Time \<times> recv \<times> bool) list \<Rightarrow> Time \<Rightarrow> world \<times> loop" where
  "fetchUDPInput w c p ins tclose =
     (case fetch_loop w c p ins of
        (w', Exit) \<Rightarrow> (Close w' c tclose, Exit)
      | (w', Continue) \<Rightarrow> (w', Continue))"

section \<open>Sequences of operations\<close>

text \<open>
  Any interleaving of the handler's entry points: the three callbacks of the stack and
  a read task running over some inputs (the loop, and the deferred close when it
  returns).
\<close>

datatype op =
    Op_Connect UDPConn "UDPAddr option" "error option" Time
  | Op_ReceiveTo UDPConn "byte list" UDPAddr bool
  | Op_Close UDPConn Time
  | Op_fetch UDPConn ptr "(Time \<times> recv \<times> bool) list" Time

fun apply_op :: "world \<Rightarrow> op \<Rightarrow> world" where
  "apply_op w (Op_Connect c target listen_err now) = snd (Connect w c target listen_err now)"
| "apply_op w (Op_ReceiveTo c data addr wr_ok) = snd (ReceiveTo w c data addr wr_ok)"
| "apply_op w (Op_Close c now) = Close w c now"
| "apply_op w (Op_fetch c p ins tclose) = fst (fetchUDPInput w c p ins tclose)"

text \<open>
  The life of one flow after its \<open>Connect\<close>: calls of \<open>ReceiveTo\<close> on the handle
  and iterations of the flow's read task, which runs beside them. A call of
  \<open>ReceiveTo\<close> is its lookup, then any iterations the read task makes while the
  call is between its two parts (each with the task's teardown, if it returns), then
  the forwarding on the tracker the lookup returned. A call whose lookup fails
  returns at once. An observer beside the code keeps
  \<^item> \<open>ended\<close>: the clock at the read task's deferred close, once the task has returned
    (a returned task makes no further iteration);
  \<^item> \<open>sent\<close>: the total payload length of the \<open>ReceiveTo\<close> calls whose forwarding
    ran before the read task returned;
  \<^item> \<open>rcvd\<close>: the total of the byte counts \<open>ReadFrom\<close> returned to the read task.
\<close>

datatype step =
    Call_ReceiveTo "byte list" UDPAddr bool "(Time \<times> recv \<times> bool \<times> Time) list"
  | Task_iter Time recv bool Time

record flow =
  fw :: world
  ended :: "Time option"
  sent :: nat
  rcvd :: nat

definition received :: "world \<Rightarrow> ptr \<Rightarrow> recv \<Rightarrow> nat" where
  "received w p r =
     (case (if closed w (conn (heap w p)) then RecvErr else r) of
        RecvErr \<Rightarrow> 0
      | RecvOk n addr buf \<Rightarrow> n)"

fun task_step :: "UDPConn \<Rightarrow> ptr \<Rightarrow> flow \<Rightarrow> Time \<times> recv \<times> bool \<times> Time \<Rightarrow> flow" where
  "task_step c p f (now, r, wf_ok, tclose) =
     (case ended f of
        Some t \<Rightarrow> f
      | None \<Rightarrow>
          (case fetch_iter (fw f) c p now r wf_ok of
             (w', Continue) \<Rightarrow> f\<lparr>fw := w', rcvd := rcvd f + received (fw f) p r\<rparr>
           | (w', Exit) \<Rightarrow>
               f\<lparr>fw := Close w' c tclose, ended := Some tclose,
                 rcvd := rcvd f + received (fw f) p r\<rparr>))"

fun flow_step :: "UDPConn \<Rightarrow> ptr \<Rightarrow> flow \<Rightarrow> step \<Rightarrow> flow" where
  "flow_step c p f (Call_ReceiveTo data addr wr_ok mid) =
     (case ReceiveTo_lookup (fw f) c addr of
        Inl err \<Rightarrow> f
      | Inr q \<Rightarrow>
          (let f1 = foldl (task_step c p) f mid in
           case ReceiveTo_forward (fw f1) c q data addr wr_ok of
             (res, w') \<Rightarrow>
               f1\<lparr>fw := w',
                  sent := sent f1 + (if ended f1 = None then length data else 0)\<rparr>))"
| "flow_step c p f (Task_iter now r wf_ok tclose) = task_step c p f (now, r, wf_ok, tclose)"

definition flow_run :: "UDPConn \<Rightarrow> ptr \<Rightarrow> world \<Rightarrow> step list \<Rightarrow> flow" where
  "flow_run c p w steps =
     foldl (flow_step c p) \<lparr>fw = w, ended = None, sent = 0, rcvd = 0\<rparr> steps"

text \<open>
  The world at the final \<open>Close\<close>. The read task, if it has not returned, may by
  then have set its deadline and received a datagram that it has not yet processed
  (\<open>inflight\<close> is the clock of that iteration).
\<close>

definition fetch_recv :: "world \<Rightarrow> ptr \<Rightarrow> Time \<Rightarrow> world" where
  "fetch_recv w p now =
     (let s = conn (heap w p)
      in w\<lparr>trace := trace w @ [SetDeadline s (now + timeout w), ReadFrom s]\<rparr>)"

definition at_final_close :: "flow \<Rightarrow> ptr \<Rightarrow> Time option \<Rightarrow> world" where
  "at_final_close f p inflight =
     (case inflight of
        None \<Rightarrow> fw f
      | Some now \<Rightarrow> (if ended f = None then fetch_recv (fw f) p now else fw f))"

text \<open>A call whose payload \<open>ReceiveTo\<close> hands to the DNS transport.\<close>

fun to_transport :: "world \<Rightarrow> step \<Rightarrow> bool" where
  "to_transport w (Call_ReceiveTo data addr wr_ok mid) =
     (same_addr addr (fakedns w) \<and> dns w \<noteq> None)"
| "to_transport w (Task_iter now r wf_ok tclose) = False"

definition no_transport_call :: "world \<Rightarrow> step list \<Rightarrow> bool" where
  "no_transport_call w steps = (filter (to_transport w) steps = [])"

text \<open>The summaries delivered to the listener, in order.\<close>

fun summaries :: "event list \<Rightarrow> UDPSocketSummary list" where
  "summaries [] = []"
| "summaries (OnUDPSocketClosed s # es) = s # summaries es"
| "summaries (e # es) = summaries es"

text \<open>
  What holds of a flow since its \<open>Connect\<close> at time \<open>now0\<close>, the trace then
  being \<open>n0\<close> long. While the read task has not returned the tracker is in the
  table with an open socket, its counters are the observer's and no summary has been
  delivered; afterwards the handle has no tracker and the one summary delivered
  holds the observer's counts.
\<close>

definition flow_inv :: "UDPConn \<Rightarrow> ptr \<Rightarrow> Time \<Rightarrow> nat \<Rightarrow> flow \<Rightarrow> bool" where
  "flow_inv c p now0 n0 f =
     (n0 \<le> length (trace (fw f)) \<and>
      (case ended f of
         None \<Rightarrow>
           udpConns (fw f) c = Some p \<and>
           \<not> closed (fw f) (conn (heap (fw f) p)) \<and>
           start (heap (fw f) p) = now0 \<and>
           upload (heap (fw f) p) = of_nat (sent f) \<and>
           download (heap (fw f) p) = of_nat (rcvd f) \<and>
           summaries (drop n0 (trace (fw f))) = []
       | Some t \<Rightarrow>
           udpConns (fw f) c = None \<and>
           summaries (drop n0 (trace (fw f))) =
             [\<lparr>UploadBytes = of_nat (sent f), DownloadBytes = of_nat (rcvd f),
               Duration = seconds32 (t - now0)\<rparr>]))"

text \<open>What a step passes in: the payload length of a \<open>ReceiveTo\<close> call, the byte
  count of a receive.\<close>

fun payload_len :: "step \<Rightarrow> nat" where
  "payload_len (Call_ReceiveTo data addr wr_ok mid) = length data"
| "payload_len (Task_iter now r wf_ok tclose) = 0"

fun recv_count :: "recv \<Rightarrow> nat" where
  "recv_count (RecvOk n addr buf) = n"
| "recv_count RecvErr = 0"

fun recv_len :: "step \<Rightarrow> nat" where
  "recv_len (Task_iter now r wf_ok tclose) = recv_count r"
| "recv_len (Call_ReceiveTo data addr wr_ok mid) =
     sum_list (map (\<lambda>i. recv_count (fst (snd i))) mid)"

text \<open>The closes of real sockets, in order.\<close>

fun sock_closes :: "event list \<Rightarrow> sock list" where
  "sock_closes [] = []"
| "sock_closes (SockClose s # es) = s # sock_closes es"
| "sock_closes (e # es) = sock_closes es"

text \<open>The deadline and receive calls on real sockets, in order.\<close>

fun deadline_reads :: "event list \<Rightarrow> event list" where
  "deadline_reads [] = []"
| "deadline_reads (SetDeadline s t # es) = SetDeadline s t # deadline_reads es"
| "deadline_reads (ReadFrom s # es) = ReadFrom s # deadline_reads es"
| "deadline_reads (e # es) = deadline_reads es"

text \<open>The inputs of the iterations the loop runs, out of those supplied.\<close>

fun consumed ::
  "world \<Rightarrow> UDPConn \<Rightarrow> ptr \<Rightarrow> (Time \<times> recv \<times> bool) list \<Rightarrow> (Time \<times> recv \<times> bool) list" where
  "consumed w c p [] = []"
| "consumed w c p ((now, r, wf_ok) # ins) =
     (now, r, wf_ok) #
     (case fetch_iter w c p now r wf_ok of
        (w', Continue) \<Rightarrow> consumed w' c p ins
      | (w', Exit) \<Rightarrow> [])"

section \<open>The tunnel: tunnel/intra.go\<close>

text \<open>
  \<open>time.ParseDuration\<close> of the standard library, for the strings made of unsigned
  decimal integers each followed by a unit (\<open>[0-9]+[a-z]+\<close>, repeated); a sign or
  a fraction is outside this model (\<open>None\<close>, as for a malformed string). The fuel
  is the length of the string: every segment consumes a character.
\<close>

definition digit :: "char \<Rightarrow> nat option" where
  "digit c =
     (let n = (of_char c :: nat) in if 48 \<le> n \<and> n \<le> 57 then Some (n - 48) else None)"

fun leadingInt :: "string \<Rightarrow> nat \<Rightarrow> nat \<times> string" where
  "leadingInt [] x = (x, [])"
| "leadingInt (c # s) x =
     (case digit c of None \<Rightarrow> (x, c # s) | Some d \<Rightarrow> leadingInt s (x * 10 + d))"

definition unit_char :: "char \<Rightarrow> bool" where
  "unit_char c = (c \<noteq> CHR ''.'' \<and> digit c = None)"

definition unitMap :: "string \<Rightarrow> int option" where
  "unitMap u =
     (if u = ''ns'' then Some Nanosecond
      else if u = ''us'' then Some Microsecond
      else if u = ''ms'' then Some Millisecond
      else if u = ''s'' then Some Second
      else if u = ''m'' then Some Minute
      else if u = ''h'' then Some Hour
      else None)"

fun segments :: "nat \<Rightarrow> string \<Rightarrow> int \<Rightarrow> int option" where
  "segments 0 s d = (if s = [] then Some d else None)"
| "segments (Suc k) s d =
     (if s = [] then Some d
      else case leadingInt s 0 of
        (v, rest) \<Rightarrow>
          if length rest = length s then None
          else (let u = takeWhile unit_char rest;
                    rest' = dropWhile unit_char rest
                in if u = [] then None
                   else case unitMap u of
                     None \<Rightarrow> None
                   | Some unit \<Rightarrow> segments k rest' (d + int v * unit)))"

definition ParseDuration :: "string \<Rightarrow> int option" where
  "ParseDuration s =
     (if s = [] then None else if s = ''0'' then Some 0 else segments (length s) s 0)"

text \<open>
  The struct \<open>intratunnel\<close>; its field \<open>dns\<close> is \<open>tdns\<close> here. The TCP flow
  manager is not part of these sources: its state is a type variable, and its
  constructor and its \<open>SetDNS\<close> are parameters, as is the \<open>SetDNS\<close> of the UDP flow
  manager.
\<close>

record 't intratunnel =
  tcp :: 't
  udp :: udpHandler
  tdns :: "DNSTransport option"

text \<open>
  \<open>registerConnectionHandlers\<close>. The resolvers of \<open>net\<close> are parameters. The call
  of \<open>NewUDPHandler\<close> passes the two addresses, the timeout and the listener; the
  transport starts absent (the interface documents \<open>nil\<close> as the default).
\<close>

definition registerConnectionHandlers ::
  "(string \<Rightarrow> error + UDPAddr) \<Rightarrow> (string \<Rightarrow> error + 'a) \<Rightarrow> ('a \<Rightarrow> 'a \<Rightarrow> nat \<Rightarrow> 't) \<Rightarrow>
   string \<Rightarrow> string \<Rightarrow> string \<Rightarrow> nat \<Rightarrow> error + 't intratunnel" where
  "registerConnectionHandlers ResolveUDPAddr ResolveTCPAddr NewTCPHandler
       fakedns_s udpdns tcpdns l =
     (let tmo = (case ParseDuration ''2h4m'' of Some d \<Rightarrow> d | None \<Rightarrow> 0) in
      case ResolveUDPAddr fakedns_s of
        Inl err \<Rightarrow> Inl err
      | Inr udpfakedns \<Rightarrow>
     (case ResolveUDPAddr udpdns of
        Inl err \<Rightarrow> Inl err
      | Inr udptruedns \<Rightarrow>
     (case ResolveTCPAddr fakedns_s of
        Inl err \<Rightarrow> Inl err
      | Inr tcpfakedns \<Rightarrow>
     (case ResolveTCPAddr tcpdns of
        Inl err \<Rightarrow> Inl err
      | Inr tcptruedns \<Rightarrow>
          Inr \<lparr>tcp = NewTCPHandler tcpfakedns tcptruedns l,
               udp = NewUDPHandler udpfakedns udptruedns None tmo l,
               tdns = None\<rparr>))))"

definition SetDNS ::
  "(udpHandler \<Rightarrow> DNSTransport option \<Rightarrow> udpHandler) \<Rightarrow> ('t \<Rightarrow> DNSTransport option \<Rightarrow> 't) \<Rightarrow>
   't intratunnel \<Rightarrow> DNSTransport option \<Rightarrow> 't intratunnel" where
  "SetDNS udp_SetDNS tcp_SetDNS t d =
     (let t1 = t\<lparr>tdns := d\<rparr>;
          t2 = t1\<lparr>udp := udp_SetDNS (udp t1) d\<rparr>
      in t2\<lparr>tcp := tcp_SetDNS (tcp t2) d\<rparr>)"

definition GetDNS :: "'t intratunnel \<Rightarrow> DNSTransport option" where
  "GetDNS t = tdns t"

text \<open>The step of \<open>NewIntraTunnel\<close> that applies the initial transport (lines 97 to 99).\<close>

definition initial_dns ::
  "(udpHandler \<Rightarrow> DNSTransport option \<Rightarrow> udpHandler) \<Rightarrow> ('t \<Rightarrow> DNSTransport option \<Rightarrow> 't) \<Rightarrow>
   't intratunnel \<Rightarrow> DNSTransport option \<Rightarrow> 't intratunnel" where
  "initial_dns udp_SetDNS tcp_SetDNS t dohdns =
     (case dohdns of None \<Rightarrow> t | Some d \<Rightarrow> SetDNS udp_SetDNS tcp_SetDNS t (Some d))"

text \<open>
  Modelled from the spec: the \<open>SetDNS\<close> of the two flow managers, which these
  sources call and do not define. The spec gives each manager one swappable transport
  binding, which the assignment replaces. The TCP manager's state is that binding and
  its HTTPS-splitting flag.
\<close>

record TCPHandler =
  tcp_dns :: "DNSTransport option"
  alwaysSplitHTTPS :: bool

definition UDPHandler_SetDNS :: "udpHandler \<Rightarrow> DNSTransport option \<Rightarrow> udpHandler" where
  "UDPHandler_SetDNS h d = h\<lparr>dns := d\<rparr>"

definition TCPHandler_SetDNS :: "TCPHandler \<Rightarrow> DNSTransport option \<Rightarrow> TCPHandler" where
  "TCPHandler_SetDNS h d = h\<lparr>tcp_dns := d\<rparr>"

section \<open>Example worlds\<close>

definition fake0 :: UDPAddr where
  "fake0 = \<lparr>IP = [10, 111, 222, 3], Port = 53, Zone = ''''\<rparr>"

definition true0 :: UDPAddr where
  "true0 = \<lparr>IP = [127, 0, 0, 1], Port = 5353, Zone = ''''\<rparr>"

definition web0 :: UDPAddr where
  "web0 = \<lparr>IP = [93, 184, 216, 34], Port = 443, Zone = ''''\<rparr>"

text \<open>A 12-byte DNS query with id \<open>0x1234\<close>, and a 28-byte answer to it.\<close>

definition query0 :: "byte list" where
  "query0 = [0x12, 0x34, 1, 0, 0, 1, 0, 0, 0, 0, 0, 0]"

definition answer0 :: "byte list" where
  "answer0 = [0x12, 0x34, 0x81, 0x80, 0, 1, 0, 1, 0, 0, 0, 0,
              0, 0, 1, 0, 1, 0xc0, 0x0c, 0, 1, 0, 1, 0, 4, 10, 0, 0]"

text \<open>A handler with no transport in an empty store; then that handler, and one
  with a transport, each with one open flow on handle 7 (tracker 0, socket 0)
  connected at time 1000.\<close>

definition w_boot :: world where
  "w_boot = boot (NewUDPHandler fake0 true0 None 7440000000000 0)"

definition w_plain :: world where
  "w_plain = snd (Connect w_boot 7 None None 1000)"

definition w_doh :: world where
  "w_doh = snd (Connect (boot (NewUDPHandler fake0 true0 (Some 1) 7440000000000 0)) 7 None None 1000)"

text \<open>A tunnel whose transport has been set to transport 1.\<close>

definition tun1 :: "TCPHandler intratunnel" where
  "tun1 = SetDNS UDPHandler_SetDNS TCPHandler_SetDNS
     \<lparr>tcp = \<lparr>tcp_dns = None, alwaysSplitHTTPS = False\<rparr>,
      udp = NewUDPHandler fake0 true0 None 7440000000000 0,
      tdns = None\<rparr> (Some 1)"

text \<open>A flow of general traffic: two datagrams out, the second write failing, one
  datagram in between the calls and one while the second call is between its two
  parts.\<close>

definition steps1 :: "step list" where
  "steps1 =
     [Call_ReceiveTo query0 web0 True [],
      Task_iter 2000 (RecvOk 28 web0 answer0) True 3000000000,
      Call_ReceiveTo query0 web0 False [(2500, RecvOk 28 web0 answer0, True, 3500000000)]]"

text \<open>A query, its answer from the true-DNS address, and a second query.\<close>

definition steps0 :: "step list" where
  "steps0 =
     [Call_ReceiveTo query0 fake0 True [],
      Task_iter 2000 (RecvOk 28 true0 answer0) True 3000000000,
      Call_ReceiveTo query0 fake0 True []]"

text \<open>A second query whose lookup succeeds just before the read task receives the
  answer to the first and returns: the forwarding runs after the teardown.\<close>

definition steps2 :: "step list" where
  "steps2 =
     [Call_ReceiveTo query0 fake0 True [],
      Call_ReceiveTo query0 fake0 True [(2000, RecvOk 28 true0 answer0, True, 3000000000)]]"

section \<open>The duration of a young flow\<close>

lemma Second_val: "Second = 1000000000"
  by (simp add: Second_def Millisecond_def Microsecond_def Nanosecond_def)

lemma rne_floor: "\<lfloor>y\<rfloor> \<le> rne y"
  by (simp add: rne_def Let_def)

lemma rne_upper: "of_int (rne y) \<le> y + 1 / 2"
proof -
  have f: "of_int \<lfloor>y\<rfloor> \<le> y" by simp
  consider "y - of_int \<lfloor>y\<rfloor> < 1 / 2" | "1 / 2 < y - of_int \<lfloor>y\<rfloor>" | "y - of_int \<lfloor>y\<rfloor> = 1 / 2"
    by linarith
  then show ?thesis
  proof cases
    case 1
    then have "rne y = \<lfloor>y\<rfloor>" by (simp add: rne_def Let_def)
    then show ?thesis using order_trans [OF f, of "y + 1 / 2"] by simp
  next
    case 2
    then have "rne y = \<lfloor>y\<rfloor> + 1" by (simp add: rne_def Let_def)
    then show ?thesis using 2 by simp
  next
    case 3
    then have "rne y \<le> \<lfloor>y\<rfloor> + 1" by (simp add: rne_def Let_def)
    then have "of_int (rne y) \<le> (of_int \<lfloor>y\<rfloor> + 1 :: rat)"
      by (metis of_int_1 of_int_add of_int_le_iff)
    then show ?thesis using 3 by simp
  qed
qed

lemma rne_of_int: "rne (of_int n) = n"
  by (simp add: rne_def Let_def)

lemma pow2_pos: "0 < pow2 e"
  by (simp add: pow2_def)

lemma pow2_neg: "e \<le> 0 \<Longrightarrow> pow2 e = 1 / 2 ^ nat (- e)"
  by (cases "e = 0") (simp_all add: pow2_def)

lemma pow2_mono: "e \<le> e' \<Longrightarrow> pow2 e \<le> pow2 e'"
proof -
  assume le: "e \<le> e'"
  have "pow2 e = 2 powi e" for e
    by (simp add: pow2_def power_int_def field_simps)
  then show ?thesis
    using le by (simp add: power_int_increasing)
qed

lemma ilog2_small: "0 < x \<Longrightarrow> x < 1 \<Longrightarrow> ilog2 x \<le> - 1"
proof -
  assume x: "0 < x" "x < 1"
  then have "1 < 1 / x" by simp
  then have "2 \<le> \<lceil>1 / x\<rceil>" by linarith
  then have "1 \<le> bitlen (\<lceil>1 / x\<rceil> - 1)"
    by (simp add: bitlen_ge_iff_power)
  then show ?thesis using x by (simp add: ilog2_def)
qed

lemma ilog2_upper: "1 \<le> x \<Longrightarrow> x < 2 ^ k \<Longrightarrow> ilog2 x \<le> int k - 1"
proof -
  assume x: "1 \<le> x" "x < 2 ^ k"
  have "\<lfloor>x\<rfloor> < 2 ^ k"
    using x(2) by (simp add: floor_less_iff)
  then have "bitlen \<lfloor>x\<rfloor> \<le> int k"
    by (simp add: bitlen_le_iff_power)
  then show ?thesis using x by (simp add: ilog2_def)
qed

lemma round64_pos:
  "0 < x \<Longrightarrow> round64 x = of_int (rne (x / pow2 (ilog2 x - 52))) * pow2 (ilog2 x - 52)"
  by (simp add: round64_def Let_def)

lemma round64_upper:
  assumes "0 < x" and "ilog2 x - 52 \<le> e0"
  shows "round64 x \<le> x + pow2 e0 / 2"
proof -
  let ?e = "ilog2 x - 52"
  have p: "0 < pow2 ?e" by (rule pow2_pos)
  have "of_int (rne (x / pow2 ?e)) * pow2 ?e \<le> (x / pow2 ?e + 1 / 2) * pow2 ?e"
    using rne_upper [of "x / pow2 ?e"] p by (simp only: mult_le_cancel_right_pos)
  also have "\<dots> = x + pow2 ?e / 2"
    using p by (simp add: field_simps)
  also have "\<dots> \<le> x + pow2 e0 / 2"
    using pow2_mono [OF assms(2)] by simp
  finally show ?thesis
    by (simp add: round64_pos [OF assms(1)])
qed

lemma round64_lower:
  assumes "0 < x" and "of_int N \<le> x" and "ilog2 x \<le> 52"
  shows "of_int N \<le> round64 x"
proof -
  let ?e = "ilog2 x - 52"
  let ?m = "nat (- ?e)"
  have e: "pow2 ?e = 1 / 2 ^ ?m"
    using assms(3) by (simp add: pow2_neg)
  have "of_int (N * 2 ^ ?m) \<le> x * 2 ^ ?m"
    using assms(2) by simp
  then have "N * 2 ^ ?m \<le> \<lfloor>x * 2 ^ ?m\<rfloor>"
    by (simp only: le_floor_iff)
  also have "\<dots> \<le> rne (x * 2 ^ ?m)"
    by (rule rne_floor)
  finally have "of_int (N * 2 ^ ?m) \<le> (of_int (rne (x * 2 ^ ?m)) :: rat)"
    by (simp only: of_int_le_iff)
  then have "of_int N * 2 ^ ?m \<le> (of_int (rne (x * 2 ^ ?m)) :: rat)"
    by simp
  then have "of_int N \<le> (of_int (rne (x * 2 ^ ?m)) :: rat) / 2 ^ ?m"
    by (simp add: pos_le_divide_eq)
  then show ?thesis
    by (simp add: round64_pos [OF assms(1)] e)
qed

lemma round64_of_int:
  assumes "0 \<le> n" and "n < 2 ^ 53"
  shows "round64 (of_int n) = of_int n"
proof (cases "n = 0")
  case True
  then show ?thesis by (simp add: round64_def)
next
  case False
  then have pos: "0 < (of_int n :: rat)" "1 \<le> (of_int n :: rat)"
    using assms(1) by simp_all
  have "(of_int n :: rat) < 2 ^ 53"
    using assms(2) by (metis of_int_less_iff of_int_numeral of_int_power)
  from ilog2_upper [OF pos(2) this] have le: "ilog2 (of_int n) \<le> 52" by simp
  let ?e = "ilog2 (of_int n) - 52"
  let ?m = "nat (- ?e)"
  have e: "pow2 ?e = 1 / 2 ^ ?m"
    using le by (simp add: pow2_neg)
  have "of_int n * 2 ^ ?m = (of_int (n * 2 ^ ?m) :: rat)" by simp
  then have "rne (of_int n * 2 ^ ?m) = n * 2 ^ ?m"
    by (simp only: rne_of_int)
  then show ?thesis
    by (simp add: round64_pos [OF pos(1)] e)
qed

lemma young_sec:
  assumes "0 \<le> (d::int)" and "d < 16777216 * 1000000000"
  shows "0 \<le> d div 1000000000" "d div 1000000000 \<le> 16777215"
proof -
  show "0 \<le> d div 1000000000"
    using assms(1) by (simp add: pos_imp_zdiv_nonneg_iff)
  have "d \<le> 16777215999999999" using assms(2) by simp
  then have "d div 1000000000 \<le> 16777215999999999 div 1000000000"
    by (rule zdiv_mono1) simp
  then show "d div 1000000000 \<le> 16777215" by simp
qed

lemma young_td:
  assumes "0 \<le> (d::int)"
  shows "tdiv d 1000000000 = d div 1000000000" "trem d 1000000000 = d mod 1000000000"
proof -
  show a: "tdiv d 1000000000 = d div 1000000000"
  proof (cases "d = 0")
    case True
    then show ?thesis by (simp add: tdiv_def)
  next
    case False
    then have "0 < d" using assms by simp
    then show ?thesis by (simp add: tdiv_def)
  qed
  show "trem d 1000000000 = d mod 1000000000"
    unfolding trem_def a by (simp add: minus_div_mult_eq_mod)
qed

lemma young_nsec:
  "0 \<le> (d::int) mod 1000000000" "(d::int) mod 1000000000 \<le> 999999999"
proof -
  show "0 \<le> d mod 1000000000" by simp
  have "d mod 1000000000 < 1000000000" by (rule pos_mod_bound) simp
  then show "d mod 1000000000 \<le> 999999999" by simp
qed


lemma round64_frac:
  assumes "0 \<le> x" and "x < 1"
  shows "0 \<le> round64 x" "round64 x \<le> x + 1 / 2 ^ 54"
proof -
  show "0 \<le> round64 x"
  proof (cases "x = 0")
    case True
    then show ?thesis by (simp add: round64_def)
  next
    case False
    then have pos: "0 < x" using assms(1) by simp
    have "ilog2 x \<le> 52"
      using ilog2_small [OF pos assms(2)] by simp
    from round64_lower [OF pos _ this, of 0] pos show ?thesis by simp
  qed
  show "round64 x \<le> x + 1 / 2 ^ 54"
  proof (cases "x = 0")
    case True
    then show ?thesis by (simp add: round64_def)
  next
    case False
    then have pos: "0 < x" using assms(1) by simp
    have "ilog2 x - 52 \<le> - 53"
      using ilog2_small [OF pos assms(2)] by simp
    from round64_upper [OF pos this] have "round64 x \<le> x + pow2 (- 53) / 2" .
    moreover have "pow2 (- 53) / 2 = 1 / 2 ^ 54"
      by (simp add: pow2_def)
    ultimately show ?thesis by simp
  qed
qed


lemma round64_whole:
  assumes "0 \<le> N" and "N \<le> 16777215"
    and "of_int N \<le> y" and "y \<le> of_int N + 999999999 / 1000000000 + 1 / 2 ^ 54"
  shows "of_int N \<le> round64 y" "round64 y < of_int N + 1"
proof -
  have N: "(0::rat) \<le> of_int N" "(of_int N :: rat) \<le> 16777215"
    using assms(1,2) by simp_all
  have y24: "y < 2 ^ 24"
    using assms(4) N(2) by simp
  have both: "of_int N \<le> round64 y \<and> round64 y < of_int N + 1"
  proof (cases "y = 0")
    case True
    then have "(of_int N :: rat) = 0" using assms(3) N(1) by simp
    then show ?thesis by (simp add: True round64_def)
  next
    case False
    then have pos: "0 < y" using assms(3) N(1) by simp
    have il: "ilog2 y \<le> 23"
    proof (cases "1 \<le> y")
      case True
      from ilog2_upper [OF True y24] show ?thesis by simp
    next
      case False
      then have "y < 1" by simp
      from ilog2_small [OF pos this] show ?thesis by simp
    qed
    have il52: "ilog2 y \<le> 52" using il by simp
    have lo: "of_int N \<le> round64 y"
      by (rule round64_lower [OF pos assms(3) il52])
    have "ilog2 y - 52 \<le> - 29" using il by simp
    from round64_upper [OF pos this] have "round64 y \<le> y + pow2 (- 29) / 2" .
    moreover have "pow2 (- 29) / 2 = 1 / 2 ^ 30"
      by (simp add: pow2_def)
    ultimately have "round64 y \<le> y + 1 / 2 ^ 30" by simp
    then have "round64 y \<le> of_int N + 999999999 / 1000000000 + 1 / 2 ^ 54 + 1 / 2 ^ 30"
      using assms(4) by simp
    moreover have "(999999999 / 1000000000 + 1 / 2 ^ 54 + 1 / 2 ^ 30 :: rat) < 1"
      by simp
    ultimately have "round64 y < of_int N + 1" by linarith
    with lo show ?thesis by simp
  qed
  then show "of_int N \<le> round64 y" "round64 y < of_int N + 1" by simp_all
qed


lemma Seconds_young:
  assumes "0 \<le> d" and "d < 16777216 * 1000000000"
  shows "of_int (d div 1000000000) \<le> Seconds d" "Seconds d < of_int (d div 1000000000) + 1"
proof -
  let ?sec = "d div 1000000000"
  let ?nsec = "d mod 1000000000"
  note sec = young_sec [OF assms]
  note nsec = young_nsec [of d]
  have r_sec: "round64 (of_int ?sec) = of_int ?sec"
    using sec by (intro round64_of_int) simp_all
  have r_nsec: "round64 (of_int ?nsec) = of_int ?nsec"
    using nsec by (intro round64_of_int) simp_all
  have r_e9: "round64 1000000000 = 1000000000"
    using round64_of_int [of 1000000000] by simp
  define x where "x = (of_int ?nsec :: rat) / 1000000000"
  have n: "(0::rat) \<le> of_int ?nsec" "(of_int ?nsec :: rat) \<le> 999999999"
    using nsec by simp_all
  have x: "0 \<le> x" "x \<le> 999999999 / 1000000000"
    using n by (simp_all add: x_def)
  then have x1: "x < 1" by simp
  note q = round64_frac [OF x(1) x1]
  define y where "y = of_int ?sec + round64 x"
  have S: "Seconds d = round64 y"
    by (simp add: Seconds_def Second_val young_td [OF assms(1)] r_sec r_nsec r_e9 y_def x_def
        Let_def)
  have y: "of_int ?sec \<le> y" "y \<le> of_int ?sec + 999999999 / 1000000000 + 1 / 2 ^ 54"
    using q x(2) by (simp_all add: y_def)
  from round64_whole [OF sec y]
  show "of_int (d div 1000000000) \<le> Seconds d" "Seconds d < of_int (d div 1000000000) + 1"
    by (simp_all add: S)
qed

lemma seconds32_young:
  assumes "0 \<le> d" and "d < 16777216 * 1000000000"
  shows "seconds32 d = word_of_int (d div 1000000000)"
proof -
  have s: "sat64 d = d"
    using assms by (simp add: sat64_def)
  note sec = young_sec [OF assms]
  note S = Seconds_young [OF assms]
  have "\<lfloor>Seconds d\<rfloor> = d div 1000000000"
    using S by (intro floor_unique) simp_all
  moreover have "(0::rat) \<le> of_int (d div 1000000000)"
    using sec(1) by simp
  then have "0 \<le> Seconds d"
    using S(1) by (rule order_trans)
  ultimately have t: "trunc0 (Seconds d) = d div 1000000000"
    by (simp add: trunc0_def)
  show ?thesis
    using sec by (simp add: seconds32_def s t int32_of_def)
qed

lemmas ex_defs = w_plain_def w_boot_def w_doh_def boot_def NewUDPHandler_def Connect_def makeTracker_def
  fake0_def true0_def web0_def query0_def answer0_def

lemmas ReceiveTo_defs = ReceiveTo_def ReceiveTo_lookup_def ReceiveTo_forward_def

lemmas run_defs = ReceiveTo_defs classify_out_def fetch_iter_def classify_in_def Close_def
  fetchUDPInput_def same_addr_def IP_Equal_def v4InV6Prefix_def queryid_def seconds32_young
  Let_def

section \<open>Effects of ReceiveTo\<close>

lemma classify_out_fields:
  "classify_out w t data addr = (t1, addr1, doh) \<Longrightarrow>
     conn t1 = conn t \<and> start t1 = start t \<and> upload t1 = upload t \<and>
     download t1 = download t \<and> (complex t \<longrightarrow> complex t1)"
  by (auto simp: classify_out_def Let_def split: if_splits option.splits)

lemma ReceiveTo_found:
  assumes "udpConns w c = Some p"
  obtains t1 addr1 doh where
    "classify_out w (heap w p) data addr = (t1, addr1, doh)"
    "fst (ReceiveTo w c data addr wr_ok) =
       (if wr_ok \<and> \<not> closed w (conn t1) then None else Some WriteFailed)"
    "heap (snd (ReceiveTo w c data addr wr_ok)) =
       (heap w)(p := t1\<lparr>upload := upload t1 + of_nat (length data)\<rparr>)"
    "trace (snd (ReceiveTo w c data addr wr_ok)) =
       trace w @ (if doh then [Go_doDoh c data] else []) @ [WriteTo (conn t1) data addr1]"
proof -
  obtain t1 addr1 doh where *: "classify_out w (heap w p) data addr = (t1, addr1, doh)"
    by (cases "classify_out w (heap w p) data addr") auto
  show thesis
    by (rule that [OF *]) (simp_all add: ReceiveTo_defs assms * Let_def)
qed

lemma ReceiveTo_frame:
  "udpConns (snd (ReceiveTo w c data addr wr_ok)) = udpConns w"
  "closed (snd (ReceiveTo w c data addr wr_ok)) = closed w"
  "nextp (snd (ReceiveTo w c data addr wr_ok)) = nextp w"
  "timeout (snd (ReceiveTo w c data addr wr_ok)) = timeout w"
  "fakedns (snd (ReceiveTo w c data addr wr_ok)) = fakedns w"
  "truedns (snd (ReceiveTo w c data addr wr_ok)) = truedns w"
  "dns (snd (ReceiveTo w c data addr wr_ok)) = dns w"
  by (simp_all add: ReceiveTo_defs Let_def split: option.splits prod.splits)

lemma ReceiveTo_heap_other:
  "udpConns w c \<noteq> Some q \<Longrightarrow> heap (snd (ReceiveTo w c data addr wr_ok)) q = heap w q"
  by (auto simp: ReceiveTo_defs Let_def split: option.splits prod.splits)


section \<open>Effects of Close\<close>

lemma Close_absent: "udpConns w c = None \<Longrightarrow> Close w c now = w\<lparr>trace := trace w @ [ConnClose c]\<rparr>"
  by (simp add: Close_def)

lemma Close_present:
  "udpConns w c = Some p \<Longrightarrow>
   Close w c now =
     w\<lparr>udpConns := (udpConns w)(c := None),
       closed := (closed w)(conn (heap w p) := True),
       trace := trace w @
         [ConnClose c, SockClose (conn (heap w p)),
          OnUDPSocketClosed
            \<lparr>UploadBytes = upload (heap w p), DownloadBytes = download (heap w p),
             Duration = seconds32 (now - start (heap w p))\<rparr>]\<rparr>"
  by (simp add: Close_def Let_def)

lemma Close_frame:
  "heap (Close w c now) = heap w"
  "nextp (Close w c now) = nextp w"
  "timeout (Close w c now) = timeout w"
  "udpConns (Close w c now) c = None"
  by (simp_all add: Close_def Let_def split: option.splits)

section \<open>Effects of one iteration of the read task\<close>

lemma classify_in_fields:
  "classify_in w t n addr buf = (t1, a1) \<Longrightarrow>
     conn t1 = conn t \<and> start t1 = start t \<and> upload t1 = upload t \<and>
     download t1 = download t \<and> (complex t \<longrightarrow> complex t1)"
  by (auto simp: classify_in_def Let_def split: if_splits)

lemma fetch_iter_closed:
  "closed w (conn (heap w p)) \<Longrightarrow>
   fetch_iter w c p now r wf_ok =
     (w\<lparr>trace := trace w @ [SetDeadline (conn (heap w p)) (now + timeout w),
                             ReadFrom (conn (heap w p))]\<rparr>, Exit)"
  by (simp add: fetch_iter_def Let_def)

lemma fetch_iter_err:
  "fetch_iter w c p now RecvErr wf_ok =
     (w\<lparr>trace := trace w @ [SetDeadline (conn (heap w p)) (now + timeout w),
                             ReadFrom (conn (heap w p))]\<rparr>, Exit)"
  by (simp add: fetch_iter_def Let_def)

lemma fetch_iter_ok:
  assumes "\<not> closed w (conn (heap w p))"
  obtains t1 a1 where
    "classify_in w (heap w p) n addr buf = (t1, a1)"
    "snd (fetch_iter w c p now (RecvOk n addr buf) wf_ok) =
       (if wf_ok \<and> complex t1 then Continue else Exit)"
    "heap (fst (fetch_iter w c p now (RecvOk n addr buf) wf_ok)) =
       (heap w)(p := t1\<lparr>download := download t1 + of_nat n\<rparr>)"
    "trace (fst (fetch_iter w c p now (RecvOk n addr buf) wf_ok)) =
       trace w @ [SetDeadline (conn (heap w p)) (now + timeout w), ReadFrom (conn (heap w p)),
                  WriteFrom c (take n buf) a1]"
proof -
  obtain t1 a1 where *: "classify_in w (heap w p) n addr buf = (t1, a1)"
    by (cases "classify_in w (heap w p) n addr buf") auto
  have **: "classify_in (w\<lparr>trace := tr\<rparr>) t n addr buf = classify_in w t n addr buf" for tr t
    by (simp add: classify_in_def)
  show thesis
    by (rule that [OF *]) (simp_all add: fetch_iter_def assms * ** Let_def)
qed

lemma fetch_iter_frame:
  "udpConns (fst (fetch_iter w c p now r wf_ok)) = udpConns w"
  "closed (fst (fetch_iter w c p now r wf_ok)) = closed w"
  "nextp (fst (fetch_iter w c p now r wf_ok)) = nextp w"
  "timeout (fst (fetch_iter w c p now r wf_ok)) = timeout w"
  "fakedns (fst (fetch_iter w c p now r wf_ok)) = fakedns w"
  "truedns (fst (fetch_iter w c p now r wf_ok)) = truedns w"
  "dns (fst (fetch_iter w c p now r wf_ok)) = dns w"
  by (simp_all add: fetch_iter_def Let_def split: recv.splits prod.splits)

section \<open>Lookup failure\<close>

text \<open>
  C7. \<open>ReceiveTo\<close> on a handle with no tracker in the flow table returns the
  lookup error and changes nothing: the table, every tracker, the sockets, the calls
  made and the log are as before.
\<close>

theorem ReceiveTo_unknown_flow:
  "udpConns w c = None \<Longrightarrow> ReceiveTo w c data addr wr_ok = (Some (ConnNotExists c addr), w)"
  by (simp add: ReceiveTo_defs)

theorem ReceiveTo_unknown_flow_witness:
  "udpConns w_plain 8 = None \<and>
   ReceiveTo w_plain 8 query0 fake0 True = (Some (ConnNotExists 8 fake0), w_plain)"
  using ReceiveTo_unknown_flow [of w_plain 8 query0 fake0 True]
  by (simp add: ex_defs)

section \<open>Counters count processed bytes\<close>

text \<open>
  C9. The counters record the bytes processed, not the bytes delivered. When the
  write to the real socket fails, \<open>ReceiveTo\<close> returns the write error and the
  tracker's upload counter has still grown by the payload length. When the read task
  has received \<open>n\<close> bytes and the write towards the virtual interface fails, the
  loop exits, the download counter has still grown by \<open>n\<close>, and the summary of
  the teardown that follows reports it.
\<close>

theorem counters_count_processed_bytes:
  "udpConns w c = Some p \<Longrightarrow>
   fst (ReceiveTo w c data addr False) = Some WriteFailed \<and>
   upload (heap (snd (ReceiveTo w c data addr False)) p) =
     upload (heap w p) + of_nat (length data) \<and>
   (\<not> closed w (conn (heap w p)) \<longrightarrow>
      snd (fetch_iter w c p now (RecvOk n src buf) False) = Exit \<and>
      download (heap (fst (fetch_iter w c p now (RecvOk n src buf) False)) p) =
        download (heap w p) + of_nat n \<and>
      fetchUDPInput w c p [(now, RecvOk n src buf, False)] tclose =
        (Close (fst (fetch_iter w c p now (RecvOk n src buf) False)) c tclose, Exit) \<and>
      summaries (drop (length (trace w))
          (trace (fst (fetchUDPInput w c p [(now, RecvOk n src buf, False)] tclose)))) =
        [\<lparr>UploadBytes = upload (heap w p),
          DownloadBytes = download (heap w p) + of_nat n,
          Duration = seconds32 (tclose - start (heap w p))\<rparr>])"
proof (intro conjI impI)
  assume found: "udpConns w c = Some p"
  obtain t1 addr1 doh where
    cl: "classify_out w (heap w p) data addr = (t1, addr1, doh)" and
    r: "fst (ReceiveTo w c data addr False) =
          (if False \<and> \<not> closed w (conn t1) then None else Some WriteFailed)" and
    h: "heap (snd (ReceiveTo w c data addr False)) =
          (heap w)(p := t1\<lparr>upload := upload t1 + of_nat (length data)\<rparr>)"
    by (rule ReceiveTo_found [OF found, of data addr False])
  show "fst (ReceiveTo w c data addr False) = Some WriteFailed"
    using r by simp
  show "upload (heap (snd (ReceiveTo w c data addr False)) p) =
          upload (heap w p) + of_nat (length data)"
    using h classify_out_fields [OF cl] by simp
next
  assume found: "udpConns w c = Some p" and op: "\<not> closed w (conn (heap w p))"
  let ?it = "fetch_iter w c p now (RecvOk n src buf) False"
  obtain t1 a1 where
    cl: "classify_in w (heap w p) n src buf = (t1, a1)" and
    l: "snd ?it = (if False \<and> complex t1 then Continue else Exit)" and
    h: "heap (fst ?it) = (heap w)(p := t1\<lparr>download := download t1 + of_nat n\<rparr>)" and
    tr: "trace (fst ?it) =
           trace w @ [SetDeadline (conn (heap w p)) (now + timeout w),
                      ReadFrom (conn (heap w p)), WriteFrom c (take n buf) a1]"
    by (rule fetch_iter_ok [OF op, of n src buf c now False])
  note f = classify_in_fields [OF cl]
  show ex: "snd ?it = Exit"
    using l by simp
  show "download (heap (fst ?it) p) = download (heap w p) + of_nat n"
    using h f by simp
  show fu: "fetchUDPInput w c p [(now, RecvOk n src buf, False)] tclose =
          (Close (fst ?it) c tclose, Exit)"
    using ex by (cases ?it) (simp add: fetchUDPInput_def)
  have "udpConns (fst ?it) c = Some p"
    using found by (simp add: fetch_iter_frame)
  from Close_present [OF this, of tclose]
  show "summaries (drop (length (trace w))
          (trace (fst (fetchUDPInput w c p [(now, RecvOk n src buf, False)] tclose)))) =
        [\<lparr>UploadBytes = upload (heap w p),
          DownloadBytes = download (heap w p) + of_nat n,
          Duration = seconds32 (tclose - start (heap w p))\<rparr>]"
    using fu h tr f by simp
qed


theorem counters_count_processed_bytes_witness:
  "udpConns w_plain 7 = Some 0 \<and> \<not> closed w_plain (conn (heap w_plain 0)) \<and>
   fst (ReceiveTo w_plain 7 query0 web0 False) = Some WriteFailed \<and>
   upload (heap (snd (ReceiveTo w_plain 7 query0 web0 False)) 0) = 12 \<and>
   snd (fetch_iter w_plain 7 0 2000 (RecvOk 28 web0 answer0) False) = Exit \<and>
   download (heap (fst (fetch_iter w_plain 7 0 2000 (RecvOk 28 web0 answer0) False)) 0) = 28 \<and>
   summaries (drop (length (trace w_plain))
       (trace (fst (fetchUDPInput w_plain 7 0 [(2000, RecvOk 28 web0 answer0, False)] 3000000000)))) =
     [\<lparr>UploadBytes = 0, DownloadBytes = 28, Duration = 2\<rparr>]"
  using counters_count_processed_bytes [of w_plain 7 0 query0 web0 2000 28 web0 answer0 3000000000]
  by (simp add: ex_defs run_defs)

section \<open>The one-shot DNS exchange\<close>




section \<open>Close is idempotent\<close>

lemma fetchUDPInput_Exit_closed:
  "snd (fetchUDPInput w c p ins tclose) = Exit \<Longrightarrow>
   udpConns (fst (fetchUDPInput w c p ins tclose)) c = None"
  by (auto simp: fetchUDPInput_def Close_frame split: prod.splits loop.splits)

text \<open>
  C4. \<open>Close\<close> twice on a handle with a tracker: the first call closes the
  virtual-interface side, closes the real socket and delivers the summary; the second
  only closes the virtual-interface side again. So the two calls deliver one summary
  and close the real socket once. The same holds when the first teardown is the read
  task's own (its deferred close) and the second an external \<open>Close\<close>. On a handle
  with no tracker, \<open>Close\<close> closes the virtual-interface side and does nothing else.
\<close>

theorem Close_idempotent:
  "(udpConns w c = Some p \<longrightarrow>
      trace (Close (Close w c t1) c t2) =
        trace w @
          [ConnClose c, SockClose (conn (heap w p)),
           OnUDPSocketClosed
             \<lparr>UploadBytes = upload (heap w p), DownloadBytes = download (heap w p),
              Duration = seconds32 (t1 - start (heap w p))\<rparr>,
           ConnClose c] \<and>
      Close (Close w c t1) c t2 = (Close w c t1)\<lparr>trace := trace (Close w c t1) @ [ConnClose c]\<rparr> \<and>
      length (summaries (drop (length (trace w)) (trace (Close (Close w c t1) c t2)))) = 1 \<and>
      sock_closes (drop (length (trace w)) (trace (Close (Close w c t1) c t2))) =
        [conn (heap w p)]) \<and>
   (udpConns w c = None \<longrightarrow> Close w c t1 = w\<lparr>trace := trace w @ [ConnClose c]\<rparr>) \<and>
   (snd (fetchUDPInput w c q ins tclose) = Exit \<longrightarrow>
      Close (fst (fetchUDPInput w c q ins tclose)) c t2 =
        (fst (fetchUDPInput w c q ins tclose))
          \<lparr>trace := trace (fst (fetchUDPInput w c q ins tclose)) @ [ConnClose c]\<rparr>)"
proof (intro conjI impI)
  assume found: "udpConns w c = Some p"
  have gone: "udpConns (Close w c t1) c = None"
    by (rule Close_frame)
  show twice: "Close (Close w c t1) c t2 =
      (Close w c t1)\<lparr>trace := trace (Close w c t1) @ [ConnClose c]\<rparr>"
    by (rule Close_absent [OF gone])
  show tr: "trace (Close (Close w c t1) c t2) =
        trace w @
          [ConnClose c, SockClose (conn (heap w p)),
           OnUDPSocketClosed
             \<lparr>UploadBytes = upload (heap w p), DownloadBytes = download (heap w p),
              Duration = seconds32 (t1 - start (heap w p))\<rparr>,
           ConnClose c]"
    unfolding twice by (simp add: Close_present [OF found])
  show "length (summaries (drop (length (trace w)) (trace (Close (Close w c t1) c t2)))) = 1"
    unfolding tr by simp
  show "sock_closes (drop (length (trace w)) (trace (Close (Close w c t1) c t2))) =
        [conn (heap w p)]"
    unfolding tr by simp
next
  assume "udpConns w c = None"
  then show "Close w c t1 = w\<lparr>trace := trace w @ [ConnClose c]\<rparr>"
    by (rule Close_absent)
next
  assume "snd (fetchUDPInput w c q ins tclose) = Exit"
  then have "udpConns (fst (fetchUDPInput w c q ins tclose)) c = None"
    by (rule fetchUDPInput_Exit_closed)
  then show "Close (fst (fetchUDPInput w c q ins tclose)) c t2 =
        (fst (fetchUDPInput w c q ins tclose))
          \<lparr>trace := trace (fst (fetchUDPInput w c q ins tclose)) @ [ConnClose c]\<rparr>"
    by (rule Close_absent)
qed

theorem Close_idempotent_witness:
  "udpConns w_plain 7 = Some 0 \<and>
   trace (Close (Close w_plain 7 3000000000) 7 4000000000) =
     trace w_plain @
       [ConnClose 7, SockClose 0,
        OnUDPSocketClosed \<lparr>UploadBytes = 0, DownloadBytes = 0, Duration = 2\<rparr>,
        ConnClose 7] \<and>
   udpConns w_plain 8 = None \<and>
   trace (Close w_plain 8 3000000000) = trace w_plain @ [ConnClose 8] \<and>
   snd (fetchUDPInput w_plain 7 0 [(2000, RecvErr, True)] 3000000000) = Exit \<and>
   summaries (trace (Close (fst (fetchUDPInput w_plain 7 0 [(2000, RecvErr, True)] 3000000000))
                 7 4000000000)) =
     [\<lparr>UploadBytes = 0, DownloadBytes = 0, Duration = 2\<rparr>]"
  using Close_idempotent [of w_plain 7 0 3000000000 4000000000 0 "[(2000, RecvErr, True)]" 3000000000]
    Close_idempotent [of w_plain 8 0 3000000000 4000000000 0 "[(2000, RecvErr, True)]" 3000000000]
  by (simp add: ex_defs run_defs)

section \<open>Connect and its target\<close>

text \<open>
  C10. \<open>Connect\<close> does not depend on its target: for two targets, on the same
  handle in the same world, the result is the same and the worlds after the call
  agree in everything but the log line that prints the target: the same tracker under
  the same handle, the same socket bound with \<open>ListenUDP("udp", {IP: nil, Port: 0})\<close>.
  \<open>ReceiveTo\<close> takes its destination as an argument of its own.
\<close>

theorem Connect_ignores_target:
  "fst (Connect w c target1 listen_err now) = fst (Connect w c target2 listen_err now) \<and>
   (snd (Connect w c target1 listen_err now))\<lparr>logs := []\<rparr> =
     (snd (Connect w c target2 listen_err now))\<lparr>logs := []\<rparr> \<and>
   Connect w c target1 None now =
     (None,
      w\<lparr>udpConns := (udpConns w)(c \<mapsto> nextp w),
        heap := (heap w)(nextp w := makeTracker (nexts w) now),
        nextp := Suc (nextp w),
        nexts := Suc (nexts w),
        closed := (closed w)(nexts w := False),
        trace := trace w @
          [ListenUDP ''udp'' \<lparr>IP = [], Port = 0, Zone = ''''\<rparr> (Some (nexts w)),
           Go_fetchUDPInput c (nextp w)],
        logs := logs w @ [Infof ''new proxy connection for target: %s:%s'' target1]\<rparr>)"
  by (cases listen_err) (simp_all add: Connect_def Let_def)

section \<open>The DNS transport of the tunnel\<close>

text \<open>
  C2, as the code has it. \<open>SetDNS\<close> has no check: whatever transport it is given,
  present or absent, becomes the current binding and is passed to the \<open>SetDNS\<close> of
  the UDP and of the TCP flow manager. The constructor is what skips an absent
  initial transport.
\<close>

theorem SetDNS_records_and_propagates:
  "GetDNS (SetDNS udp_SetDNS tcp_SetDNS t d) = d \<and>
   udp (SetDNS udp_SetDNS tcp_SetDNS t d) = udp_SetDNS (udp t) d \<and>
   tcp (SetDNS udp_SetDNS tcp_SetDNS t d) = tcp_SetDNS (tcp t) d \<and>
   initial_dns udp_SetDNS tcp_SetDNS t None = t \<and>
   initial_dns udp_SetDNS tcp_SetDNS t (Some x) = SetDNS udp_SetDNS tcp_SetDNS t (Some x)"
  by (simp add: SetDNS_def GetDNS_def initial_dns_def Let_def)

text \<open>
  C2 as stated fails: on a tunnel bound to transport 1, \<open>SetDNS\<close> with an absent
  transport replaces the binding of the tunnel and of both flow managers by the
  absent value.
\<close>

theorem SetDNS_absent_counterexample:
  "GetDNS tun1 = Some 1 \<and> dns (udp tun1) = Some 1 \<and> tcp_dns (tcp tun1) = Some 1 \<and>
   GetDNS (SetDNS UDPHandler_SetDNS TCPHandler_SetDNS tun1 None) = None \<and>
   dns (udp (SetDNS UDPHandler_SetDNS TCPHandler_SetDNS tun1 None)) = None \<and>
   tcp_dns (tcp (SetDNS UDPHandler_SetDNS TCPHandler_SetDNS tun1 None)) = None \<and>
   SetDNS UDPHandler_SetDNS TCPHandler_SetDNS tun1 None \<noteq> tun1"
proof -
  have a: "GetDNS tun1 = Some 1"
    and b: "GetDNS (SetDNS UDPHandler_SetDNS TCPHandler_SetDNS tun1 None) = None"
    by (simp_all add: tun1_def SetDNS_def GetDNS_def Let_def)
  have "SetDNS UDPHandler_SetDNS TCPHandler_SetDNS tun1 None \<noteq> tun1"
    using a b by auto
  then show ?thesis
    by (simp add: tun1_def SetDNS_def GetDNS_def UDPHandler_SetDNS_def TCPHandler_SetDNS_def
        NewUDPHandler_def Let_def)
qed

section \<open>The DoH branch of ReceiveTo\<close>

lemma ReceiveTo_doh_branch:
  assumes "udpConns w c = Some p" and "same_addr addr (fakedns w)" and "dns w = Some d"
  shows "upload (heap (snd (ReceiveTo w c data addr wr_ok)) p) =
           upload (heap w p) + of_nat (length data) \<and>
         trace (snd (ReceiveTo w c data addr wr_ok)) =
           trace w @ [Go_doDoh c data, WriteTo (conn (heap w p)) data addr]"
  using assms by (simp add: ReceiveTo_defs classify_out_def Let_def)

lemma doDoh_frame:
  "doDoh w c data answer = Some w' \<Longrightarrow>
   heap w' = heap w \<and> udpConns w' = udpConns w \<and> closed w' = closed w"
  by (auto simp: doDoh_def Let_def split: option.splits)

text \<open>
  C1, evaluated on the code. A transport is configured and handle 7 has a tracker
  with no upload yet. \<open>ReceiveTo\<close> of a 12-byte query for the fake-DNS address
  starts the \<open>doDoh\<close> task and then goes on: the upload counter becomes 12 and the
  query is written to the real socket, addressed to the fake-DNS address. The task
  itself only queries the transport and writes the answer towards the virtual
  interface with the fake-DNS address as source.
\<close>

theorem ReceiveTo_doh_still_forwards:
  "udpConns w_doh 7 = Some 0 \<and> dns w_doh = Some 1 \<and> upload (heap w_doh 0) = 0 \<and>
   same_addr fake0 (fakedns w_doh) \<and>
   ReceiveTo w_doh 7 query0 fake0 True =
     (None,
      w_doh\<lparr>heap := (heap w_doh)(0 := (heap w_doh 0)\<lparr>upload := 12\<rparr>),
            trace := trace w_doh @ [Go_doDoh 7 query0, WriteTo 0 query0 fake0]\<rparr>) \<and>
   doDoh w_doh 7 query0 (Some answer0) =
     Some (w_doh\<lparr>trace := trace w_doh @ [Query 1 query0, WriteFrom 7 answer0 fake0]\<rparr>)"
  by (simp add: ex_defs run_defs doDoh_def)


section \<open>Traces\<close>

lemma summaries_append: "summaries (xs @ ys) = summaries xs @ summaries ys"
  by (induction xs rule: summaries.induct) simp_all

lemma deadline_reads_append: "deadline_reads (xs @ ys) = deadline_reads xs @ deadline_reads ys"
  by (induction xs rule: deadline_reads.induct) simp_all

lemma fetch_iter_trace:
  "\<exists>e. trace (fst (fetch_iter w c p now r wf_ok)) =
         trace w @ [SetDeadline (conn (heap w p)) (now + timeout w), ReadFrom (conn (heap w p))] @ e \<and>
       deadline_reads e = [] \<and> summaries e = []"
  by (simp add: fetch_iter_def Let_def split: recv.splits prod.splits)

lemma fetch_iter_heap:
  "conn (heap (fst (fetch_iter w c p now r wf_ok)) q) = conn (heap w q)"
  "start (heap (fst (fetch_iter w c p now r wf_ok)) q) = start (heap w q)"
  "upload (heap (fst (fetch_iter w c p now r wf_ok)) q) = upload (heap w q)"
  "complex (heap w q) \<Longrightarrow> complex (heap (fst (fetch_iter w c p now r wf_ok)) q)"
  by (auto simp: fetch_iter_def Let_def classify_in_def split: recv.splits prod.splits if_splits)

lemma fetch_iter_download:
  "download (heap (fst (fetch_iter w c p now r wf_ok)) p) =
     download (heap w p) + of_nat (received w p r)"
  by (auto simp: fetch_iter_def received_def Let_def classify_in_def
      split: recv.splits prod.splits if_splits)

lemma fetch_loop_frame:
  "timeout (fst (fetch_loop w c p ins)) = timeout w \<and>
   nextp (fst (fetch_loop w c p ins)) = nextp w \<and>
   (complex (heap w q) \<longrightarrow> complex (heap (fst (fetch_loop w c p ins)) q))"
proof (induction ins arbitrary: w)
  case Nil
  then show ?case by simp
next
  case (Cons i ins)
  obtain now r wf_ok where i: "i = (now, r, wf_ok)" by (cases i) auto
  obtain w' l where it: "fetch_iter w c p now r wf_ok = (w', l)"
    by (cases "fetch_iter w c p now r wf_ok") auto
  have fr: "timeout w' = timeout w" "nextp w' = nextp w"
    "complex (heap w q) \<longrightarrow> complex (heap w' q)"
    using fetch_iter_frame [of w c p now r wf_ok] fetch_iter_heap(4) [of w q c p now r wf_ok] it
    by simp_all
  show ?case
    using Cons.IH [of w'] fr by (cases l) (simp_all add: i it)
qed

lemma fetch_loop_trace:
  "\<exists>e. trace (fst (fetch_loop w c p ins)) = trace w @ e \<and>
       deadline_reads e =
         concat (map (\<lambda>i. [SetDeadline (conn (heap w p)) (fst i + timeout w),
                           ReadFrom (conn (heap w p))])
                 (consumed w c p ins))"
proof (induction ins arbitrary: w)
  case Nil
  then show ?case by simp
next
  case (Cons i ins)
  obtain now r wf_ok where i: "i = (now, r, wf_ok)" by (cases i) auto
  obtain w' l where it: "fetch_iter w c p now r wf_ok = (w', l)"
    by (cases "fetch_iter w c p now r wf_ok") auto
  obtain e where e: "trace w' =
      trace w @ [SetDeadline (conn (heap w p)) (now + timeout w), ReadFrom (conn (heap w p))] @ e"
      "deadline_reads e = []"
    using fetch_iter_trace [of w c p now r wf_ok] it by auto
  have same: "conn (heap w' p) = conn (heap w p)" "timeout w' = timeout w"
    using fetch_iter_heap(1) [of w c p now r wf_ok p] fetch_iter_frame(4) [of w c p now r wf_ok] it
    by simp_all
  show ?case
  proof (cases l)
    case Exit
    then show ?thesis
      using e by (simp add: i it deadline_reads_append)
  next
    case Continue
    from Cons.IH [of w'] obtain e' where e': "trace (fst (fetch_loop w' c p ins)) = trace w' @ e'"
      "deadline_reads e' =
         concat (map (\<lambda>i. [SetDeadline (conn (heap w' p)) (fst i + timeout w'),
                           ReadFrom (conn (heap w' p))])
                 (consumed w' c p ins))"
      by blast
    show ?thesis
      using e e' same Continue by (simp add: i it deadline_reads_append)
  qed
qed

lemma Connect_frame:
  "timeout (snd (Connect w c target listen_err now)) = timeout w"
  "nextp w \<le> nextp (snd (Connect w c target listen_err now))"
  "q < nextp w \<Longrightarrow> heap (snd (Connect w c target listen_err now)) q = heap w q"
  by (simp_all add: Connect_def Let_def split: option.splits)

lemma ReceiveTo_complex:
  "complex (heap w q) \<Longrightarrow> complex (heap (snd (ReceiveTo w c data addr wr_ok)) q)"
  by (auto simp: ReceiveTo_defs classify_out_def Let_def split: option.splits prod.splits if_splits)

lemma apply_op_frame:
  "timeout (apply_op w x) = timeout w \<and> nextp w \<le> nextp (apply_op w x) \<and>
   (q < nextp w \<longrightarrow> complex (heap w q) \<longrightarrow> complex (heap (apply_op w x) q))"
proof (cases x)
  case (Op_Connect c target listen_err now)
  then show ?thesis
    by (simp add: Connect_frame)
next
  case (Op_ReceiveTo c data addr wr_ok)
  then show ?thesis
    by (simp add: ReceiveTo_frame ReceiveTo_complex)
next
  case (Op_Close c now)
  then show ?thesis
    by (simp add: Close_frame)
next
  case (Op_fetch c p ins tclose)
  then show ?thesis
    using fetch_loop_frame [of w c p ins q]
    by (cases "fetch_loop w c p ins"; cases "snd (fetch_loop w c p ins)")
       (simp_all add: fetchUDPInput_def Close_frame)
qed

lemma run_frame:
  "timeout (foldl apply_op w ops) = timeout w \<and> nextp w \<le> nextp (foldl apply_op w ops) \<and>
   (q < nextp w \<longrightarrow> complex (heap w q) \<longrightarrow> complex (heap (foldl apply_op w ops) q))"
proof (induction ops arbitrary: w)
  case Nil
  then show ?case by simp
next
  case (Cons x ops)
  show ?case
    using Cons.IH [of "apply_op w x"] apply_op_frame [of w x q] by auto
qed


section \<open>The idle timeout\<close>

lemma ParseDuration_2h4m: "ParseDuration ''2h4m'' = Some (2 * Hour + 4 * Minute)"
  by (simp add: ParseDuration_def digit_def unit_char_def unitMap_def)

lemma two_hours_four_minutes: "2 * Hour + 4 * Minute = 7440000000000"
  by (simp add: Hour_def Minute_def Second_def Millisecond_def Microsecond_def Nanosecond_def)

lemma registerConnectionHandlers_timeout:
  "registerConnectionHandlers RU RT NT fs us ts l = Inr tun \<Longrightarrow>
   timeout (udp tun) = 2 * Hour + 4 * Minute"
  by (auto simp: registerConnectionHandlers_def ParseDuration_2h4m NewUDPHandler_def
      split: sum.splits)

text \<open>
  C8. The timeout \<open>registerConnectionHandlers\<close> gives the UDP handler is
  \<open>ParseDuration("2h4m")\<close>, which is 2 hours 4 minutes (7440 seconds), and no
  operation changes it. Every iteration of the read task first sets the deadline of
  the tracker's socket to the clock of that iteration plus the handler's timeout and
  then receives; so over a run of the loop the deadline and receive calls alternate,
  one pair for each iteration, each deadline computed from its own clock reading.
\<close>

theorem idle_timeout_per_read:
  "(registerConnectionHandlers RU RT NT fs us ts l = Inr tun \<longrightarrow>
      timeout (udp tun) = 2 * Hour + 4 * Minute \<and>
      2 * Hour + 4 * Minute = 7440 * Second \<and>
      timeout (foldl apply_op (boot (udp tun)) ops) = 2 * Hour + 4 * Minute) \<and>
   take 2 (drop (length (trace w)) (trace (fst (fetch_iter w c p now r wf_ok)))) =
     [SetDeadline (conn (heap w p)) (now + timeout w), ReadFrom (conn (heap w p))] \<and>
   deadline_reads (drop (length (trace w)) (trace (fst (fetch_loop w c p ins)))) =
     concat (map (\<lambda>i. [SetDeadline (conn (heap w p)) (fst i + timeout w),
                        ReadFrom (conn (heap w p))])
               (consumed w c p ins))"
proof (intro conjI impI)
  assume reg: "registerConnectionHandlers RU RT NT fs us ts l = Inr tun"
  show t: "timeout (udp tun) = 2 * Hour + 4 * Minute"
    by (rule registerConnectionHandlers_timeout [OF reg])
  show "2 * Hour + 4 * Minute = 7440 * Second"
    by (simp add: Hour_def Minute_def)
  have "timeout (foldl apply_op (boot (udp tun)) ops) = timeout (boot (udp tun))"
    using run_frame [of "boot (udp tun)" ops 0] by simp
  then show "timeout (foldl apply_op (boot (udp tun)) ops) = 2 * Hour + 4 * Minute"
    using t by (simp add: boot_def)
next
  obtain e where "trace (fst (fetch_iter w c p now r wf_ok)) =
      trace w @ [SetDeadline (conn (heap w p)) (now + timeout w), ReadFrom (conn (heap w p))] @ e"
    using fetch_iter_trace [of w c p now r wf_ok] by blast
  then show "take 2 (drop (length (trace w)) (trace (fst (fetch_iter w c p now r wf_ok)))) =
     [SetDeadline (conn (heap w p)) (now + timeout w), ReadFrom (conn (heap w p))]"
    by simp
next
  obtain e where "trace (fst (fetch_loop w c p ins)) = trace w @ e"
    "deadline_reads e =
       concat (map (\<lambda>i. [SetDeadline (conn (heap w p)) (fst i + timeout w),
                          ReadFrom (conn (heap w p))])
                 (consumed w c p ins))"
    using fetch_loop_trace [of w c p ins] by blast
  then show "deadline_reads (drop (length (trace w)) (trace (fst (fetch_loop w c p ins)))) =
     concat (map (\<lambda>i. [SetDeadline (conn (heap w p)) (fst i + timeout w),
                        ReadFrom (conn (heap w p))])
               (consumed w c p ins))"
    by simp
qed

theorem idle_timeout_per_read_witness:
  "registerConnectionHandlers
       (\<lambda>s. if s = ''10.111.222.3:53'' then Inr fake0 else Inr true0) (\<lambda>s. Inr s)
       (\<lambda>a b l. \<lparr>tcp_dns = None, alwaysSplitHTTPS = False\<rparr>)
       ''10.111.222.3:53'' ''127.0.0.1:5353'' ''127.0.0.1:5353'' 0 =
     Inr \<lparr>tcp = \<lparr>tcp_dns = None, alwaysSplitHTTPS = False\<rparr>,
          udp = NewUDPHandler fake0 true0 None 7440000000000 0, tdns = None\<rparr> \<and>
   timeout (foldl apply_op (boot (NewUDPHandler fake0 true0 None 7440000000000 0))
              [Op_Connect 7 None None 1000, Op_ReceiveTo 7 query0 web0 True]) = 7440000000000 \<and>
   deadline_reads (drop (length (trace w_plain))
       (trace (fst (fetch_loop w_plain 7 0
          [(2000, RecvOk 28 web0 answer0, True), (5000, RecvErr, True), (6000, RecvErr, True)])))) =
     [SetDeadline 0 7440000002000, ReadFrom 0, SetDeadline 0 7440000005000, ReadFrom 0]"
proof -
  let ?tun = "\<lparr>tcp = \<lparr>tcp_dns = None, alwaysSplitHTTPS = False\<rparr>,
               udp = NewUDPHandler fake0 true0 None 7440000000000 0, tdns = None\<rparr>"
  have reg: "registerConnectionHandlers
       (\<lambda>s. if s = ''10.111.222.3:53'' then Inr fake0 else Inr true0) (\<lambda>s. Inr s)
       (\<lambda>a b l. \<lparr>tcp_dns = None, alwaysSplitHTTPS = False\<rparr>)
       ''10.111.222.3:53'' ''127.0.0.1:5353'' ''127.0.0.1:5353'' 0 = Inr ?tun"
    by (simp add: registerConnectionHandlers_def ParseDuration_2h4m two_hours_four_minutes)
  have cons: "consumed w_plain 7 0
          [(2000, RecvOk 28 web0 answer0, True), (5000, RecvErr, True), (6000, RecvErr, True)] =
        [(2000, RecvOk 28 web0 answer0, True), (5000, RecvErr, True)]"
    by (simp add: ex_defs run_defs)
  have w: "conn (heap w_plain 0) = 0" "timeout w_plain = 7440000000000"
    by (simp_all add: ex_defs)
  show ?thesis
    using idle_timeout_per_read [where tun = ?tun and w = w_plain and c = 7 and p = 0
        and ins = "[(2000, RecvOk 28 web0 answer0, True), (5000, RecvErr, True), (6000, RecvErr, True)]"
        and ops = "[Op_Connect 7 None None 1000, Op_ReceiveTo 7 query0 web0 True]",
        of "\<lambda>s. if s = ''10.111.222.3:53'' then Inr fake0 else Inr true0" "\<lambda>s. Inr s"
          "\<lambda>a b l. \<lparr>tcp_dns = None, alwaysSplitHTTPS = False\<rparr>"
          "''10.111.222.3:53''" "''127.0.0.1:5353''" "''127.0.0.1:5353''" 0]
      reg cons w
    by (simp add: two_hours_four_minutes)
qed

section \<open>The complex flag\<close>

text \<open>
  C6. A tracker that is complex stays complex: after \<open>ReceiveTo\<close>, after an
  iteration of the read task, and after any sequence of operations of the handler
  (\<open>Connect\<close>, \<open>ReceiveTo\<close>, \<open>Close\<close>, read tasks) once the tracker has been
  created. The one assignment of \<open>false\<close> is the creation in \<open>makeTracker\<close>.
\<close>

theorem complex_never_reverts:
  "complex (heap w q) \<Longrightarrow>
   complex (heap (snd (ReceiveTo w c data addr wr_ok)) q) \<and>
   complex (heap (fst (fetch_iter w c p now r wf_ok)) q) \<and>
   complex (heap (fst (fetch_loop w c p ins)) q) \<and>
   (q < nextp w \<longrightarrow> complex (heap (foldl apply_op w ops) q))"
  using ReceiveTo_complex [of w q c data addr wr_ok] fetch_iter_heap(4) [of w q c p now r wf_ok]
    fetch_loop_frame [of w c p ins q] run_frame [of w ops q]
  by simp

theorem complex_never_reverts_witness:
  "complex (heap (snd (ReceiveTo w_plain 7 query0 web0 True)) 0) \<and>
   0 < nextp (snd (ReceiveTo w_plain 7 query0 web0 True)) \<and>
   complex (heap (snd (ReceiveTo (snd (ReceiveTo w_plain 7 query0 web0 True)) 7 query0 fake0 True)) 0) \<and>
   complex (heap (fst (fetch_iter (snd (ReceiveTo w_plain 7 query0 web0 True)) 7 0 2000
                         (RecvOk 28 true0 answer0) True)) 0) \<and>
   complex (heap (foldl apply_op (snd (ReceiveTo w_plain 7 query0 web0 True))
       [Op_ReceiveTo 7 query0 fake0 True,
        Op_fetch 7 0 [(2000, RecvOk 28 true0 answer0, True), (2001, RecvErr, True)] 3000000000,
        Op_Connect 7 None None 4000000000,
        Op_Close 7 5000000000]) 0)"
proof -
  let ?w = "snd (ReceiveTo w_plain 7 query0 web0 True)"
  have h: "complex (heap ?w 0)" "0 < nextp ?w"
    by (simp_all add: ex_defs run_defs)
  from complex_never_reverts [OF h(1), of 7 query0 fake0 True 0 2000 "RecvOk 28 true0 answer0" True
      "[]" "[Op_ReceiveTo 7 query0 fake0 True,
        Op_fetch 7 0 [(2000, RecvOk 28 true0 answer0, True), (2001, RecvErr, True)] 3000000000,
        Op_Connect 7 None None 4000000000,
        Op_Close 7 5000000000]"] h
  show ?thesis by simp
qed


section \<open>One flow from Connect to Close\<close>

lemma ReceiveTo_forward_effect:
  "udpConns (snd (ReceiveTo_forward w c p data addr wr_ok)) = udpConns w"
  "closed (snd (ReceiveTo_forward w c p data addr wr_ok)) = closed w"
  "conn (heap (snd (ReceiveTo_forward w c p data addr wr_ok)) p) = conn (heap w p)"
  "start (heap (snd (ReceiveTo_forward w c p data addr wr_ok)) p) = start (heap w p)"
  "download (heap (snd (ReceiveTo_forward w c p data addr wr_ok)) p) = download (heap w p)"
  "upload (heap (snd (ReceiveTo_forward w c p data addr wr_ok)) p) =
     upload (heap w p) + of_nat (length data)"
  by (auto simp: ReceiveTo_forward_def classify_out_def Let_def split: option.splits if_splits)

lemma ReceiveTo_forward_trace:
  "\<exists>e. trace (snd (ReceiveTo_forward w c p data addr wr_ok)) = trace w @ e \<and> summaries e = []"
  by (auto simp: ReceiveTo_forward_def classify_out_def Let_def split: option.splits if_splits)

lemma task_step_inv:
  assumes "flow_inv c p now0 n0 f"
  shows "flow_inv c p now0 n0 (task_step c p f i)"
proof (cases "ended f")
  case (Some t)
  then show ?thesis using assms by (cases i) simp
next
  case None
  obtain now r wf_ok tclose where i: "i = (now, r, wf_ok, tclose)"
    by (cases i) auto
  from None have live: "udpConns (fw f) c = Some p" "\<not> closed (fw f) (conn (heap (fw f) p))"
    "start (heap (fw f) p) = now0" "upload (heap (fw f) p) = of_nat (sent f)"
    "download (heap (fw f) p) = of_nat (rcvd f)" "summaries (drop n0 (trace (fw f))) = []"
    "n0 \<le> length (trace (fw f))"
    using assms by (simp_all add: flow_inv_def)
  let ?it = "fetch_iter (fw f) c p now r wf_ok"
  obtain w' l where it: "?it = (w', l)" by (cases ?it) auto
  obtain e where e: "trace w' = trace (fw f) @ e" "summaries e = []"
    using fetch_iter_trace [of "fw f" c p now r wf_ok] it by auto
  have fr: "udpConns w' = udpConns (fw f)" "closed w' = closed (fw f)"
    using fetch_iter_frame(1,2) [of "fw f" c p now r wf_ok] it by simp_all
  have hp: "conn (heap w' p) = conn (heap (fw f) p)" "start (heap w' p) = start (heap (fw f) p)"
    "upload (heap w' p) = upload (heap (fw f) p)"
    "download (heap w' p) = download (heap (fw f) p) + of_nat (received (fw f) p r)"
    using fetch_iter_heap(1-3) [of "fw f" c p now r wf_ok p]
      fetch_iter_download [of "fw f" c p now r wf_ok] it by simp_all
  show ?thesis
  proof (cases l)
    case Continue
    then show ?thesis
      using None live it e fr hp by (simp add: i flow_inv_def summaries_append)
  next
    case Exit
    have "udpConns w' c = Some p" using fr live by simp
    note cp = Close_present [OF this, of tclose]
    show ?thesis
      using None live it e fr hp Exit by (simp add: i flow_inv_def cp summaries_append)
  qed
qed

lemma task_foldl_inv:
  "flow_inv c p now0 n0 f \<Longrightarrow> flow_inv c p now0 n0 (foldl (task_step c p) f mid)"
  by (induction mid arbitrary: f) (simp_all add: task_step_inv)

lemma flow_step_ReceiveTo_inv:
  assumes "flow_inv c p now0 n0 f"
  shows "flow_inv c p now0 n0 (flow_step c p f (Call_ReceiveTo data addr wr_ok mid))"
proof (cases "ended f")
  case (Some t)
  then have "udpConns (fw f) c = None"
    using assms by (simp add: flow_inv_def)
  then have "flow_step c p f (Call_ReceiveTo data addr wr_ok mid) = f"
    by (simp add: ReceiveTo_lookup_def)
  then show ?thesis using assms by simp
next
  case None
  then have found: "udpConns (fw f) c = Some p"
    using assms by (simp add: flow_inv_def)
  let ?f1 = "foldl (task_step c p) f mid"
  let ?r = "ReceiveTo_forward (fw ?f1) c p data addr wr_ok"
  have inv1: "flow_inv c p now0 n0 ?f1"
    by (rule task_foldl_inv [OF assms])
  have st: "flow_step c p f (Call_ReceiveTo data addr wr_ok mid) =
      ?f1\<lparr>fw := snd ?r, sent := sent ?f1 + (if ended ?f1 = None then length data else 0)\<rparr>"
    using found by (cases ?r) (simp add: ReceiveTo_lookup_def Let_def)
  obtain e where e: "trace (snd ?r) = trace (fw ?f1) @ e" "summaries e = []"
    using ReceiveTo_forward_trace [of "fw ?f1" c p data addr wr_ok] by blast
  note R = ReceiveTo_forward_effect [of "fw ?f1" c p data addr wr_ok]
  show ?thesis
  proof (cases "ended ?f1")
    case None
    then have live: "udpConns (fw ?f1) c = Some p" "\<not> closed (fw ?f1) (conn (heap (fw ?f1) p))"
      "start (heap (fw ?f1) p) = now0" "upload (heap (fw ?f1) p) = of_nat (sent ?f1)"
      "download (heap (fw ?f1) p) = of_nat (rcvd ?f1)"
      "summaries (drop n0 (trace (fw ?f1))) = []" "n0 \<le> length (trace (fw ?f1))"
      using inv1 by (simp_all add: flow_inv_def)
    show ?thesis
      unfolding st using None live R e by (simp add: flow_inv_def summaries_append)
  next
    case (Some t)
    then have dead: "udpConns (fw ?f1) c = None" "n0 \<le> length (trace (fw ?f1))"
      "summaries (drop n0 (trace (fw ?f1))) =
         [\<lparr>UploadBytes = of_nat (sent ?f1), DownloadBytes = of_nat (rcvd ?f1),
           Duration = seconds32 (t - now0)\<rparr>]"
      using inv1 by (simp_all add: flow_inv_def)
    show ?thesis
      unfolding st using Some dead R(1) e by (simp add: flow_inv_def summaries_append)
  qed
qed

lemma flow_step_inv:
  assumes "flow_inv c p now0 n0 f"
  shows "flow_inv c p now0 n0 (flow_step c p f s)"
proof (cases s)
  case (Call_ReceiveTo data addr wr_ok mid)
  show ?thesis
    unfolding Call_ReceiveTo by (rule flow_step_ReceiveTo_inv [OF assms])
next
  case (Task_iter now r wf_ok tclose)
  show ?thesis
    unfolding Task_iter flow_step.simps by (rule task_step_inv [OF assms])
qed

lemma flow_foldl_inv:
  "flow_inv c p now0 n0 f \<Longrightarrow> flow_inv c p now0 n0 (foldl (flow_step c p) f steps)"
proof (induction steps arbitrary: f)
  case Nil
  then show ?case by simp
next
  case (Cons s steps)
  from Cons.IH [OF flow_step_inv [OF Cons.prems, of s]] show ?case
    by (simp only: foldl_Cons)
qed


lemma task_step_ended:
  "ended f = Some t \<Longrightarrow> ended (task_step c p f i) = Some t"
  by (cases i) simp

lemma task_foldl_ended:
  "ended f = Some t \<Longrightarrow> ended (foldl (task_step c p) f mid) = Some t"
  by (induction mid arbitrary: f) (simp_all add: task_step_ended del: task_step.simps)

lemma flow_step_ended:
  "ended f = Some t \<Longrightarrow> ended (flow_step c p f s) = Some t"
  by (cases s) (simp_all add: task_foldl_ended Let_def split: sum.splits prod.splits)

lemma flow_foldl_ended:
  "ended f = Some t \<Longrightarrow> ended (foldl (flow_step c p) f steps) = Some t"
  by (induction steps arbitrary: f) (simp_all add: flow_step_ended del: flow_step.simps)

lemma task_step_live:
  assumes "flow_inv c p now0 n0 f" and "ended (task_step c p f i) = None"
  shows "sent (task_step c p f i) = sent f \<and>
         rcvd (task_step c p f i) = rcvd f + recv_count (fst (snd i))"
proof -
  obtain now r wf_ok tclose where i: "i = (now, r, wf_ok, tclose)"
    by (cases i) auto
  have none: "ended f = None"
    using assms(2) task_step_ended [of f _ c p i] by (cases "ended f") auto
  then have op: "\<not> closed (fw f) (conn (heap (fw f) p))"
    using assms(1) by (simp add: flow_inv_def)
  have rl: "received (fw f) p r = recv_count r"
    using op by (cases r) (simp_all add: received_def)
  obtain w' l where it: "fetch_iter (fw f) c p now r wf_ok = (w', l)"
    by (cases "fetch_iter (fw f) c p now r wf_ok") auto
  have "l = Continue"
    using assms(2) none it by (cases l) (simp_all add: i)
  then show ?thesis
    using none it rl by (simp add: i)
qed

lemma task_foldl_live:
  "flow_inv c p now0 n0 f \<Longrightarrow> ended (foldl (task_step c p) f mid) = None \<Longrightarrow>
   sent (foldl (task_step c p) f mid) = sent f \<and>
   rcvd (foldl (task_step c p) f mid) =
     rcvd f + sum_list (map (\<lambda>i. recv_count (fst (snd i))) mid)"
proof (induction mid arbitrary: f)
  case Nil
  then show ?case by simp
next
  case (Cons i mid)
  let ?f1 = "task_step c p f i"
  have inv1: "flow_inv c p now0 n0 ?f1"
    by (rule task_step_inv [OF Cons.prems(1)])
  have fin: "ended (foldl (task_step c p) ?f1 mid) = None"
    using Cons.prems(2) by (simp only: foldl_Cons)
  have none1: "ended ?f1 = None"
    using fin task_foldl_ended [of ?f1 _ c p mid] by (cases "ended ?f1") auto
  from task_step_live [OF Cons.prems(1) none1] Cons.IH [OF inv1 fin]
  show ?case by (simp del: task_step.simps)
qed

lemma flow_step_live:
  assumes "flow_inv c p now0 n0 f" and "ended (flow_step c p f s) = None"
  shows "sent (flow_step c p f s) = sent f + payload_len s \<and>
         rcvd (flow_step c p f s) = rcvd f + recv_len s"
proof (cases s)
  case (Task_iter now r wf_ok tclose)
  from task_step_live [OF assms(1), of "(now, r, wf_ok, tclose)"] assms(2)
  show ?thesis by (simp add: Task_iter del: task_step.simps)
next
  case (Call_ReceiveTo data addr wr_ok mid)
  have none: "ended f = None"
    using assms(2) flow_step_ended [of f _ c p s] by (cases "ended f") auto
  then have found: "udpConns (fw f) c = Some p"
    using assms(1) by (simp add: flow_inv_def)
  let ?f1 = "foldl (task_step c p) f mid"
  let ?r = "ReceiveTo_forward (fw ?f1) c p data addr wr_ok"
  have st: "flow_step c p f s =
      ?f1\<lparr>fw := snd ?r, sent := sent ?f1 + (if ended ?f1 = None then length data else 0)\<rparr>"
    using found by (cases ?r) (simp add: Call_ReceiveTo ReceiveTo_lookup_def Let_def)
  have none1: "ended ?f1 = None"
    using assms(2) by (simp add: st)
  from task_foldl_live [OF assms(1) none1] show ?thesis
    unfolding st by (simp add: none1 Call_ReceiveTo)
qed

lemma flow_foldl_live:
  "flow_inv c p now0 n0 f \<Longrightarrow> ended (foldl (flow_step c p) f steps) = None \<Longrightarrow>
   sent (foldl (flow_step c p) f steps) = sent f + sum_list (map payload_len steps) \<and>
   rcvd (foldl (flow_step c p) f steps) = rcvd f + sum_list (map recv_len steps)"
proof (induction steps arbitrary: f)
  case Nil
  then show ?case by simp
next
  case (Cons s steps)
  let ?f1 = "flow_step c p f s"
  have inv1: "flow_inv c p now0 n0 ?f1"
    by (rule flow_step_inv [OF Cons.prems(1)])
  have fin: "ended (foldl (flow_step c p) ?f1 steps) = None"
    using Cons.prems(2) by (simp only: foldl_Cons)
  have none1: "ended ?f1 = None"
    using fin flow_foldl_ended [of ?f1 _ c p steps] by (cases "ended ?f1") auto
  from flow_step_live [OF Cons.prems(1) none1] Cons.IH [OF inv1 fin]
  show ?case by (simp del: flow_step.simps)
qed

lemma Connect_flow_inv:
  "flow_inv c (nextp w) now0 (length (trace w))
     \<lparr>fw = snd (Connect w c target None now0), ended = None, sent = 0, rcvd = 0\<rparr>"
  by (simp add: flow_inv_def Connect_def makeTracker_def Let_def)

lemma final_close_summary:
  assumes "flow_inv c p now0 n0 f"
  shows "summaries (drop n0 (trace (Close (at_final_close f p inflight) c tfinal))) =
      [\<lparr>UploadBytes = of_nat (sent f), DownloadBytes = of_nat (rcvd f),
        Duration = seconds32 ((case ended f of None \<Rightarrow> tfinal | Some t \<Rightarrow> t) - now0)\<rparr>]"
proof (cases "ended f")
  case None
  then have live: "udpConns (fw f) c = Some p" "n0 \<le> length (trace (fw f))"
    "start (heap (fw f) p) = now0" "upload (heap (fw f) p) = of_nat (sent f)"
    "download (heap (fw f) p) = of_nat (rcvd f)"
    "summaries (drop n0 (trace (fw f))) = []"
    using assms by (simp_all add: flow_inv_def)
  let ?w = "at_final_close f p inflight"
  have w: "udpConns ?w = udpConns (fw f)" "heap ?w = heap (fw f)"
    "\<exists>e. trace ?w = trace (fw f) @ e \<and> summaries e = []"
    by (simp_all add: at_final_close_def fetch_recv_def Let_def split: option.splits)
  then obtain e where e: "trace ?w = trace (fw f) @ e" "summaries e = []"
    by blast
  have "udpConns ?w c = Some p" using w(1) live(1) by simp
  note cp = Close_present [OF this, of tfinal]
  show ?thesis
    using None live w(2) e by (simp add: cp summaries_append)
next
  case (Some t)
  then have dead: "udpConns (fw f) c = None" "n0 \<le> length (trace (fw f))"
    "summaries (drop n0 (trace (fw f))) =
       [\<lparr>UploadBytes = of_nat (sent f), DownloadBytes = of_nat (rcvd f),
         Duration = seconds32 (t - now0)\<rparr>]"
    using assms by (simp_all add: flow_inv_def)
  have w: "at_final_close f p inflight = fw f"
    using Some by (simp add: at_final_close_def split: option.splits)
  show ?thesis
    using Some dead by (simp add: w Close_absent [OF dead(1)] summaries_append)
qed

text \<open>
  C3, as the code has it. After a successful \<open>Connect\<close> on a handle, any sequence
  of \<open>ReceiveTo\<close> calls on the handle and iterations of the flow's read task (also
  between the two parts of a call), and a final \<open>Close\<close>, the listener has
  received exactly one summary.
  \<^item> Its download is the total of the byte counts the read task received and
    processed.
  \<^item> When no payload went to a DNS transport, its upload is the total payload length
    of the \<open>ReceiveTo\<close> calls whose forwarding ran before the flow was torn down.
  \<^item> Its duration is \<open>int32(Seconds())\<close> of the time from the \<open>Connect\<close> to the
    teardown (the read task's deferred close if the task returned, else the final
    \<open>Close\<close>), computed in \<open>float64\<close>; under \<open>2^24\<close> seconds that is the
    number of whole seconds.
  \<^item> When the read task has not returned before the final \<open>Close\<close>, every payload
    passed to \<open>ReceiveTo\<close> and every receive is counted.
\<close>

theorem flow_summary_exactly_once:
  assumes "f = flow_run c (nextp w) (snd (Connect w c target None tconn)) steps"
    and "age = (case ended f of None \<Rightarrow> tfinal | Some t \<Rightarrow> t) - tconn"
  shows "(\<exists>s. summaries (drop (length (trace w))
                 (trace (Close (at_final_close f (nextp w) inflight) c tfinal))) = [s] \<and>
            DownloadBytes s = of_nat (rcvd f) \<and>
            (no_transport_call w steps \<longrightarrow> UploadBytes s = of_nat (sent f)) \<and>
            Duration s = seconds32 age \<and>
            (0 \<le> age \<and> age < 16777216 * Second \<longrightarrow> Duration s = word_of_int (age div Second))) \<and>
    (ended f = None \<longrightarrow>
       sent f = sum_list (map payload_len steps) \<and> rcvd f = sum_list (map recv_len steps))"
proof -
  let ?f0 = "\<lparr>fw = snd (Connect w c target None tconn), ended = None, sent = 0, rcvd = 0\<rparr>"
  have f: "f = foldl (flow_step c (nextp w)) ?f0 steps"
    using assms(1) by (simp add: flow_run_def)
  have inv0: "flow_inv c (nextp w) tconn (length (trace w)) ?f0"
    by (rule Connect_flow_inv)
  have inv: "flow_inv c (nextp w) tconn (length (trace w)) f"
    unfolding f by (rule flow_foldl_inv [OF inv0])
  have one: "summaries (drop (length (trace w))
                 (trace (Close (at_final_close f (nextp w) inflight) c tfinal))) =
      [\<lparr>UploadBytes = of_nat (sent f), DownloadBytes = of_nat (rcvd f), Duration = seconds32 age\<rparr>]"
    unfolding assms(2) by (rule final_close_summary [OF inv])
  have young: "0 \<le> age \<and> age < 16777216 * Second \<longrightarrow> seconds32 age = word_of_int (age div Second)"
    by (simp add: Second_val seconds32_young)
  have live: "ended f = None \<longrightarrow>
       sent f = sum_list (map payload_len steps) \<and> rcvd f = sum_list (map recv_len steps)"
    using flow_foldl_live [OF inv0, of steps] f by simp
  show ?thesis
    using one young live by simp
qed


lemmas flow_defs = flow_run_def received_def at_final_close_def fetch_recv_def
  no_transport_call_def steps0_def steps1_def steps2_def

lemma seconds32_old: "seconds32 16777216999999999 = 16777217"
  by code_simp

theorem flow_summary_exactly_once_witness:
  "no_transport_call w_boot steps1 \<and>
   ended (flow_run 7 (nextp w_boot) (snd (Connect w_boot 7 None None 1000)) steps1) = None \<and>
   summaries (drop (length (trace w_boot))
      (trace (Close (at_final_close
                 (flow_run 7 (nextp w_boot) (snd (Connect w_boot 7 None None 1000)) steps1)
                 (nextp w_boot) (Some 4000))
                7 5000001000))) =
     [\<lparr>UploadBytes = 24, DownloadBytes = 56, Duration = 5\<rparr>] \<and>
   sum_list (map payload_len steps1) = 24 \<and> sum_list (map recv_len steps1) = 56 \<and>
   no_transport_call w_boot steps2 \<and>
   ended (flow_run 7 (nextp w_boot) (snd (Connect w_boot 7 None None 1000)) steps2) =
     Some 3000000000 \<and>
   sent (flow_run 7 (nextp w_boot) (snd (Connect w_boot 7 None None 1000)) steps2) = 12 \<and>
   summaries (drop (length (trace w_boot))
      (trace (Close (at_final_close
                 (flow_run 7 (nextp w_boot) (snd (Connect w_boot 7 None None 1000)) steps2)
                 (nextp w_boot) None)
                7 5000001000))) =
     [\<lparr>UploadBytes = 12, DownloadBytes = 28, Duration = 2\<rparr>]"
proof -
  let ?f1 = "flow_run 7 (nextp w_boot) (snd (Connect w_boot 7 None None 1000)) steps1"
  let ?f2 = "flow_run 7 (nextp w_boot) (snd (Connect w_boot 7 None None 1000)) steps2"
  have e: "ended ?f1 = None" "sent ?f1 = 24" "rcvd ?f1 = 56"
    "ended ?f2 = Some 3000000000" "sent ?f2 = 12" "rcvd ?f2 = 28"
    by (simp_all add: flow_defs ex_defs run_defs)
  have n: "no_transport_call w_boot steps1" "no_transport_call w_boot steps2"
    "sum_list (map payload_len steps1) = 24" "sum_list (map recv_len steps1) = 56"
    by (simp_all add: flow_defs ex_defs run_defs)
  from flow_summary_exactly_once [where c = 7 and w = w_boot and target = None and tconn = 1000
      and steps = steps1 and tfinal = 5000001000 and inflight = "Some 4000", OF refl refl]
  obtain s where s: "summaries (drop (length (trace w_boot))
      (trace (Close (at_final_close ?f1 (nextp w_boot) (Some 4000)) 7 5000001000))) = [s]"
    "DownloadBytes s = 56" "UploadBytes s = 24" "Duration s = 5"
    using e n by (auto simp: Second_val)
  from flow_summary_exactly_once [where c = 7 and w = w_boot and target = None and tconn = 1000
      and steps = steps2 and tfinal = 5000001000 and inflight = None, OF refl refl]
  obtain s' where s': "summaries (drop (length (trace w_boot))
      (trace (Close (at_final_close ?f2 (nextp w_boot) None) 7 5000001000))) = [s']"
    "DownloadBytes s' = 28" "UploadBytes s' = 12" "Duration s' = 2"
    using e n by (auto simp: Second_val)
  have "s = \<lparr>UploadBytes = 24, DownloadBytes = 56, Duration = 5\<rparr>"
    "s' = \<lparr>UploadBytes = 12, DownloadBytes = 28, Duration = 2\<rparr>"
    using s(2-4) s'(2-4) by simp_all
  then show ?thesis
    using s(1) s'(1) e n by simp
qed

text \<open>
  C3 as stated fails. The flow sends a 12-byte DNS query, the read task receives the
  28-byte answer and returns (the flow is a one-shot DNS exchange), which tears the
  flow down; a second 12-byte query on the handle then fails the lookup. The one
  summary reports an upload of 12, and 24 bytes were passed to \<open>ReceiveTo\<close>.
  And a flow closed 16777216.999999999 seconds after its \<open>Connect\<close> reports
  16777217 seconds.
\<close>

theorem flow_upload_counterexample:
  "summaries (trace (Close (fw (flow_run 7 0 w_plain steps0)) 7 5000001000)) =
     [\<lparr>UploadBytes = 12, DownloadBytes = 28, Duration = 2\<rparr>] \<and>
   sum_list (map payload_len steps0) = 24 \<and>
   (of_nat (sum_list (map payload_len steps0)) :: 64 word) \<noteq> 12 \<and>
   summaries (trace (Close w_plain 7 16777217000000999)) =
     [\<lparr>UploadBytes = 0, DownloadBytes = 0, Duration = 16777217\<rparr>] \<and>
   (16777217000000999 - 1000) div Second = 16777216"
  by (simp add: flow_defs ex_defs run_defs seconds32_old Second_val)


end
